theory Spec2Isabelle
  imports Complex_Main "HOL-Library.Char_ord" "HOL-Library.List_Lexorder" "HOL-Library.AList"
    "HOL-Library.Multiset"
begin

section \<open>Magenta music core: MIDI conversion and the Coconet pianoroll\<close>

text \<open>
  A shallow embedding of \<^verbatim>\<open>music/src/core/midi_io.ts\<close> (\<^verbatim>\<open>midiToSequenceProto\<close>,
  \<^verbatim>\<open>sequenceProtoToMidi\<close>) and of the Coconet utilities (\<^verbatim>\<open>pianorollToSequence\<close>,
  \<^verbatim>\<open>sequenceToPianoroll\<close>, \<^verbatim>\<open>flatArrayToPianoroll\<close>, \<^verbatim>\<open>buildEmptyPianoroll\<close>).

  JavaScript numbers that hold counts, pitches, steps, instruments and velocities are
  \<open>int\<close> (the protobuf schema declares them \<open>int32\<close>); times in seconds, tempi,
  normalised velocities and pianoroll cells are \<open>real\<close>. On the integer velocities
  the only float operations of the code, a division and a multiplication by the power of
  two 128, are exact, so the real-number reading agrees with the doubles there.
\<close>

subsection \<open>Errors\<close>

text \<open>
  \<open>MidiConversionError\<close> is the class of \<^verbatim>\<open>midi_io.ts\<close>; \<open>Error\<close> is the plain
  \<^verbatim>\<open>Error\<close> thrown by \<^verbatim>\<open>sequenceToPianoroll\<close>; \<open>TypeError\<close> is what the runtime
  raises when a property of \<^verbatim>\<open>undefined\<close> is read or written, which is what an
  out-of-range array read followed by a member access amounts to.
\<close>

datatype js_error = MidiConversionError string | Error string | TypeError

subsection \<open>Coconet constants\<close>

definition NUM_PITCHES :: nat where
  "NUM_PITCHES = 46"

definition MIN_PITCH :: int where
  "MIN_PITCH = 36"

subsection \<open>Array helpers\<close>

text \<open>
  \<^verbatim>\<open>Array.prototype.slice(begin, end)\<close> for \<open>0 \<le> begin \<le> end\<close>: both bounds are
  clamped to the length, nothing is raised.
\<close>

definition slice :: "'a list \<Rightarrow> nat \<Rightarrow> nat \<Rightarrow> 'a list" where
  "slice xs b e = take (e - b) (drop b xs)"

subsection \<open>flatArrayToPianoroll\<close>

text \<open>
  The two counting loops push one element per index, so each is a \<open>map\<close> over the index
  range. The body has no \<^verbatim>\<open>throw\<close> and \<^verbatim>\<open>slice\<close> never raises: every call returns.
\<close>

definition flatArrayToPianoroll :: "'a list \<Rightarrow> nat \<Rightarrow> js_error + 'a list list list" where
  "flatArrayToPianoroll flatArray numberOfSteps =
     Inr (map (\<lambda>stepIndex.
            map (\<lambda>pitchIndex.
                  (let index = stepIndex * NUM_PITCHES * 4 + pitchIndex * 4
                   in slice flatArray index (index + 4)))
                [0..<NUM_PITCHES])
          [0..<numberOfSteps])"

subsection \<open>NoteSequence\<close>

text \<open>
  The protobuf interfaces \<^verbatim>\<open>INoteSequence\<close> and \<^verbatim>\<open>INote\<close>. A field that the code
  tests for \<^verbatim>\<open>null\<close>, \<^verbatim>\<open>undefined\<close> or falsiness is an \<open>option\<close>. The \<^verbatim>\<open>time\<close>
  fields of the three records that have one carry a prefix, since record fields share
  one name space.
\<close>

record Note =
  pitch :: int
  instrument :: "int option"
  program :: "int option"
  startTime :: real
  endTime :: real
  velocity :: "int option"
  isDrum :: "bool option"
  quantizedStartStep :: int
  quantizedEndStep :: int

record tempo =
  tempo_time :: real
  qpm :: real

record time_signature =
  ts_time :: real
  numerator :: int
  denominator :: int

datatype source_parser = TONEJS_MIDI_CONVERT

datatype encoding_type = MIDI

record source_info =
  parser :: source_parser
  encodingType :: encoding_type

record note_sequence =
  ticksPerQuarter :: "int option"
  tempos :: "tempo list option"
  timeSignatures :: "time_signature list option"
  totalTime :: real
  "notes" :: "Note list"
  totalQuantizedSteps :: int
  sourceInfo :: "source_info option"

text \<open>
  Modelled from the spec: \<^verbatim>\<open>NoteSequence.create()\<close> belongs to the generated protobuf
  module, which is not among the sources. A NoteSequence is created fresh per conversion
  call and holds, after \<^verbatim>\<open>midiToSequenceProto\<close>, exactly the tempo, the time signature
  and the notes pushed into it, with \<open>totalTime\<close> the largest end time: the fresh
  document has empty lists and \<open>totalTime = 0\<close>.
\<close>

definition NoteSequence_create :: note_sequence where
  "NoteSequence_create =
     \<lparr>ticksPerQuarter = None, tempos = Some [], timeSignatures = Some [], totalTime = 0,
      notes = [], totalQuantizedSteps = 0, sourceInfo = None\<rparr>"

subsection \<open>Numbers as strings\<close>

text \<open>
  \<^verbatim>\<open>Number.prototype.toString\<close> on an integer (below \<open>10\<^sup>2\<^sup>1\<close> in magnitude): the
  decimal digits, with a leading minus sign for a negative value. It is what a template
  literal and the default comparison of \<^verbatim>\<open>Array.prototype.sort\<close> apply to a number.
\<close>

fun digits :: "nat \<Rightarrow> string" where
  "digits n = (if n < 10 then [''0123456789'' ! n]
               else digits (n div 10) @ [''0123456789'' ! (n mod 10)])"

definition js_number_toString :: "int \<Rightarrow> string" where
  "js_number_toString n =
     (if n < 0 then CHR ''-'' # digits (nat (- n)) else digits (nat n))"

subsection \<open>pianorollToSequence\<close>

type_synonym pianoroll = "real list list list"

text \<open>
  \<^verbatim>\<open>Array.prototype.forEach\<close> with a callback that takes the element and its index and
  updates the variables it closes over; the closed-over state is threaded through.
\<close>

definition forEach :: "('a \<Rightarrow> nat \<Rightarrow> 's \<Rightarrow> 's) \<Rightarrow> 'a list \<Rightarrow> 's \<Rightarrow> 's" where
  "forEach f xs = fold (\<lambda>(i, x). f x i) (enumerate 0 xs)"

text \<open>
  \<open>Note_new\<close> stands for \<^verbatim>\<open>new NoteSequence.Note()\<close>, an object of the generated
  protobuf class (not among the sources) carrying that class's default field values; it
  is a parameter. \<open>emit_notes\<close> is the triple \<^verbatim>\<open>forEach\<close> that fills the local
  array \<^verbatim>\<open>notes\<close>. Reading \<^verbatim>\<open>notes[notes.length - 1]\<close> on the empty array gives
  \<^verbatim>\<open>undefined\<close>, and the member access on it raises a \<^verbatim>\<open>TypeError\<close>.
\<close>

definition emit_notes :: "Note \<Rightarrow> pianoroll \<Rightarrow> Note list" where
  "emit_notes Note_new pianoroll =
     forEach (\<lambda>step stepIndex.
       forEach (\<lambda>pitch_row pitchIndex.
         forEach (\<lambda>value voiceIndex notes0.
           if value = 1
           then notes0 @
             [Note_new\<lparr>pitch := int pitchIndex + MIN_PITCH,
                       instrument := Some (int voiceIndex),
                       quantizedStartStep := int stepIndex,
                       quantizedEndStep := int stepIndex + 1\<rparr>]
           else notes0) pitch_row) step) pianoroll []"

definition pianorollToSequence :: "Note \<Rightarrow> pianoroll \<Rightarrow> js_error + note_sequence" where
  "pianorollToSequence Note_new pianoroll =
     (let sequence = NoteSequence_create;
          notes0 = emit_notes Note_new pianoroll
      in if length notes0 = 0 then Inl TypeError
         else Inr (sequence\<lparr>notes := notes0,
                     totalQuantizedSteps := quantizedEndStep (notes0 ! (length notes0 - 1))\<rparr>))"

subsection \<open>sequenceToPianoroll\<close>

text \<open>
  The inner loop of \<^verbatim>\<open>buildEmptyPianoroll\<close> pushes a fresh \<^verbatim>\<open>[0, 0, 0, 0]\<close> and then
  tests the new length against \<open>NUM_PITCHES\<close>, so it pushes at least once.
\<close>

definition buildEmptyPianoroll :: "nat \<Rightarrow> pianoroll" where
  "buildEmptyPianoroll numberOfSteps =
     map (\<lambda>stepIndex. replicate (max 1 NUM_PITCHES) [0, 0, 0, 0]) [0..<numberOfSteps]"

text \<open>
  The loop \<^verbatim>\<open>for (let i = stepIndex; i < stepIndex + duration; i++)\<close>, with the number
  of iterations still to run as the recursion argument. The assignment
  \<^verbatim>\<open>pianoroll[i][pitchIndex][voice] = 1\<close> reads \<^verbatim>\<open>pianoroll[i]\<close> and then
  \<^verbatim>\<open>pianoroll[i][pitchIndex]\<close>; either is \<^verbatim>\<open>undefined\<close> when its index is out of range,
  and the next access raises a \<^verbatim>\<open>TypeError\<close>. A voice that is \<^verbatim>\<open>null\<close> or \<^verbatim>\<open>undefined\<close>
  passes the range test of the caller (both comparisons are false) and names a property
  that is no array index, so no cell changes.
\<close>

fun write_steps :: "pianoroll \<Rightarrow> int \<Rightarrow> int option \<Rightarrow> int \<Rightarrow> nat \<Rightarrow> js_error + pianoroll" where
  "write_steps pianoroll pitchIndex voice i 0 = Inr pianoroll"
| "write_steps pianoroll pitchIndex voice i (Suc remaining) =
     (if i < 0 \<or> int (length pianoroll) \<le> i then Inl TypeError
      else let step = pianoroll ! nat i
           in if pitchIndex < 0 \<or> int (length step) \<le> pitchIndex then Inl TypeError
              else let cell = step ! nat pitchIndex;
                       cell' = (case voice of None \<Rightarrow> cell | Some v \<Rightarrow> cell[nat v := 1])
                   in write_steps (pianoroll[nat i := step[nat pitchIndex := cell']])
                        pitchIndex voice (i + 1) remaining)"

definition invalid_voice :: "int option \<Rightarrow> bool" where
  "invalid_voice voice = (case voice of None \<Rightarrow> False | Some v \<Rightarrow> v < 0 \<or> v > 3)"

definition voice_message :: "int option \<Rightarrow> string" where
  "voice_message voice =
     ''Found invalid voice '' @ (case voice of None \<Rightarrow> ''null'' | Some v \<Rightarrow> js_number_toString v)
       @ ''. Skipping.''"

text \<open>The callback of \<^verbatim>\<open>notes.forEach\<close>, on the pianoroll it updates.\<close>

definition write_note :: "Note \<Rightarrow> pianoroll \<Rightarrow> js_error + pianoroll" where
  "write_note note pianoroll =
     (let pitchIndex = pitch note - MIN_PITCH;
          stepIndex = quantizedStartStep note;
          duration = quantizedEndStep note - quantizedStartStep note;
          voice = instrument note
      in if invalid_voice voice then Inl (Error (voice_message voice))
         else write_steps pianoroll pitchIndex voice stepIndex (nat duration))"

text \<open>\<^verbatim>\<open>forEach\<close> with a callback that may throw: the first exception ends the loop.\<close>

fun forEach_throwing :: "('a \<Rightarrow> 's \<Rightarrow> js_error + 's) \<Rightarrow> 'a list \<Rightarrow> 's \<Rightarrow> js_error + 's" where
  "forEach_throwing f [] s = Inr s"
| "forEach_throwing f (x # xs) s =
     (case f x s of Inl e \<Rightarrow> Inl e | Inr s' \<Rightarrow> forEach_throwing f xs s')"

definition sequenceToPianoroll :: "note_sequence \<Rightarrow> nat \<Rightarrow> js_error + pianoroll" where
  "sequenceToPianoroll ns numberOfSteps =
     (let pianoroll = buildEmptyPianoroll numberOfSteps
      in forEach_throwing write_note (notes ns) pianoroll)"

subsection \<open>Constants of the MIDI conversion\<close>

text \<open>
  The module \<^verbatim>\<open>constants.ts\<close> is not among the sources. The constants whose value the
  specification does not give are the fields of a parameter.
\<close>

record midi_constants =
  DEFAULT_QUARTERS_PER_MINUTE :: real
  DEFAULT_TICKS_PER_QUARTER :: int
  DEFAULT_VELOCITY :: int
  DEFAULT_PROGRAM :: int
  DRUM_CHANNEL :: int
  DEFAULT_CHANNEL :: int

text \<open>
  Modelled from the spec: \<^verbatim>\<open>constants.MIDI_VELOCITIES\<close>. The specification gives the two
  rescalings as \<open>floor(normalizedVelocity \<times> 128)\<close> and \<open>(velocity + 1) / 128\<close>.
\<close>

definition MIDI_VELOCITIES :: real where
  "MIDI_VELOCITIES = 128"

subsection \<open>The structure exchanged with the MIDI adapter\<close>

text \<open>
  The object that \<^verbatim>\<open>midiconvert.parse\<close> returns and \<^verbatim>\<open>midiconvert.fromJSON\<close> accepts.
  \<open>note_time\<close> and \<open>note_velocity\<close> are the fields \<^verbatim>\<open>time\<close> and \<^verbatim>\<open>velocity\<close> of a note,
  \<open>track_id\<close> and \<open>track_notes\<close> the fields \<^verbatim>\<open>id\<close> and \<^verbatim>\<open>notes\<close> of a track; the header's
  \<^verbatim>\<open>timeSignature\<close> is a two-element array or absent.
\<close>

record midi_note =
  midi :: int
  note_time :: real
  duration :: real
  note_velocity :: real

record midi_track =
  track_id :: int
  track_notes :: "midi_note list"
  isPercussion :: bool
  channelNumber :: int
  instrumentNumber :: int

record midi_header =
  bpm :: real
  PPQ :: int
  timeSignature :: "(int \<times> int) option"

record parsed_midi =
  header :: midi_header
  tracks :: "midi_track list"

subsection \<open>midiToSequenceProto\<close>

text \<open>
  The model starts from the parsed structure; \<^verbatim>\<open>midiconvert.parse\<close> itself is the
  external adapter. \<open>Note_new\<close> carries the defaults of the generated protobuf class
  for the fields that \<^verbatim>\<open>NoteSequence.Note.create\<close> is not given. \<^verbatim>\<open>push\<close> onto a list
  of the fresh NoteSequence appends to it.
\<close>

definition push :: "'a list option \<Rightarrow> 'a \<Rightarrow> 'a list option" where
  "push xs x = (case xs of None \<Rightarrow> None | Some l \<Rightarrow> Some (l @ [x]))"

definition Note_create :: "Note \<Rightarrow> int \<Rightarrow> midi_track \<Rightarrow> midi_note \<Rightarrow> Note" where
  "Note_create Note_new instrumentNumber0 track note =
     (let startTime0 = note_time note;
          duration0 = duration note;
          endTime0 = startTime0 + duration0
      in Note_new\<lparr>instrument := Some instrumentNumber0,
                   program := Some (instrumentNumber track),
                   startTime := startTime0,
                   endTime := endTime0,
                   pitch := midi note,
                   velocity := Some \<lfloor>note_velocity note * MIDI_VELOCITIES\<rfloor>,
                   isDrum := Some (isPercussion track)\<rparr>)"

text \<open>The body of the loop over \<^verbatim>\<open>track.notes\<close>.\<close>

definition add_note :: "Note \<Rightarrow> int \<Rightarrow> midi_track \<Rightarrow> midi_note \<Rightarrow> note_sequence \<Rightarrow> note_sequence" where
  "add_note Note_new instrumentNumber0 track note ns =
     (let endTime0 = note_time note + duration note;
          ns' = ns\<lparr>notes := notes ns @ [Note_create Note_new instrumentNumber0 track note]\<rparr>
      in if endTime0 > totalTime ns' then ns'\<lparr>totalTime := endTime0\<rparr> else ns')"

text \<open>The body of the loop over \<^verbatim>\<open>parsedMidi.tracks\<close>, on the counter and the sequence.\<close>

definition add_track :: "Note \<Rightarrow> midi_track \<Rightarrow> int \<times> note_sequence \<Rightarrow> int \<times> note_sequence" where
  "add_track Note_new track = (\<lambda>(instrumentNumber0, ns).
     (let instrumentNumber1 =
            (if length (track_notes track) > 0 then instrumentNumber0 + 1 else instrumentNumber0)
      in (instrumentNumber1,
          fold (add_note Note_new instrumentNumber1 track) (track_notes track) ns)))"

definition midiToSequenceProto :: "Note \<Rightarrow> parsed_midi \<Rightarrow> note_sequence" where
  "midiToSequenceProto Note_new parsedMidi =
     (let ns0 = NoteSequence_create;
          ns1 = ns0\<lparr>ticksPerQuarter := Some (PPQ (header parsedMidi))\<rparr>;
          ns2 = ns1\<lparr>sourceInfo := Some \<lparr>parser = TONEJS_MIDI_CONVERT, encodingType = MIDI\<rparr>\<rparr>;
          ns3 = (case timeSignature (header parsedMidi) of
                   Some (n, d) \<Rightarrow>
                     ns2\<lparr>timeSignatures :=
                           push (timeSignatures ns2) \<lparr>ts_time = 0, numerator = n, denominator = d\<rparr>\<rparr>
                 | None \<Rightarrow>
                     ns2\<lparr>timeSignatures :=
                           push (timeSignatures ns2) \<lparr>ts_time = 0, numerator = 4, denominator = 4\<rparr>\<rparr>);
          ns4 = ns3\<lparr>tempos := push (tempos ns3) \<lparr>tempo_time = 0, qpm = bpm (header parsedMidi)\<rparr>\<rparr>;
          instrumentNumber0 = - 1
      in snd (fold (add_track Note_new) (tracks parsedMidi) (instrumentNumber0, ns4)))"

subsection \<open>sequenceProtoToMidi\<close>

text \<open>\<^verbatim>\<open>!xs || xs.length === 0\<close>\<close>

definition absent_or_empty :: "'a list option \<Rightarrow> bool" where
  "absent_or_empty xs = (case xs of None \<Rightarrow> True | Some l \<Rightarrow> length l = 0)"

text \<open>
  The \<^verbatim>\<open>Map\<close> from instrument to notes is an association list in insertion order, which
  is the order in which \<^verbatim>\<open>tracks.keys()\<close> yields the keys: \<open>AList.update\<close> replaces the
  value of a key in place and appends a new key at the end. The function is the body of
  the loop over \<^verbatim>\<open>ns.notes\<close>; \<^verbatim>\<open>note.instrument ? note.instrument : 0\<close> maps an absent
  instrument and the instrument 0 to 0.
\<close>

definition track_note :: "Note \<Rightarrow> (int \<times> Note list) list \<Rightarrow> (int \<times> Note list) list" where
  "track_note note tracks0 =
     (let instrument0 = (case instrument note of None \<Rightarrow> 0 | Some i \<Rightarrow> if i \<noteq> 0 then i else 0);
          tracks1 = (if map_of tracks0 instrument0 = None
                     then AList.update instrument0 [] tracks0 else tracks0)
      in case map_of tracks1 instrument0 of
           None \<Rightarrow> tracks1
         | Some l \<Rightarrow> AList.update instrument0 (l @ [note]) tracks1)"

text \<open>The callback of \<^verbatim>\<open>notes.map\<close>.\<close>

definition to_midi_note :: "midi_constants \<Rightarrow> Note \<Rightarrow> midi_note" where
  "to_midi_note c note =
     (let velocity0 = (case velocity note of None \<Rightarrow> DEFAULT_VELOCITY c | Some v \<Rightarrow> v)
      in \<lparr>midi = pitch note,
          note_time = startTime note,
          duration = endTime note - startTime note,
          note_velocity = real_of_int (velocity0 + 1) / MIDI_VELOCITIES\<rparr>)"

text \<open>
  The loop \<^verbatim>\<open>for (let i = 0; i < instruments.length; i++)\<close>, on the index \<open>i\<close>, the
  instruments from index \<open>i\<close> on and the tracks pushed so far. \<^verbatim>\<open>notes[0]\<close> of a missing
  or empty group would be a member access on \<^verbatim>\<open>undefined\<close>.
\<close>

fun build_tracks ::
  "midi_constants \<Rightarrow> (int \<times> Note list) list \<Rightarrow> nat \<Rightarrow> int list \<Rightarrow> midi_track list
     \<Rightarrow> js_error + midi_track list" where
  "build_tracks c tracks0 i [] json_tracks = Inr json_tracks"
| "build_tracks c tracks0 i (instrument_i # rest) json_tracks =
     (if int i \<noteq> instrument_i
      then Inl (MidiConversionError ''Instrument list must be continuous and start at 0'')
      else case map_of tracks0 (int i) of
             None \<Rightarrow> Inl TypeError
           | Some [] \<Rightarrow> Inl TypeError
           | Some (first # others) \<Rightarrow>
               (let track =
                      \<lparr>track_id = int i,
                       track_notes = map (to_midi_note c) (first # others),
                       isPercussion = (case isDrum first of None \<Rightarrow> False | Some b \<Rightarrow> b),
                       channelNumber =
                         (if isDrum first = Some True then DRUM_CHANNEL c else DEFAULT_CHANNEL c),
                       instrumentNumber =
                         (case program first of None \<Rightarrow> DEFAULT_PROGRAM c | Some p \<Rightarrow> p)\<rparr>
                in build_tracks c tracks0 (i + 1) rest (json_tracks @ [track])))"

text \<open>
  The function from the two validity checks on. \<^verbatim>\<open>Array.prototype.sort()\<close> without a
  comparison function orders the elements by their string forms, compared code unit by
  code unit; on lists of characters that is the lexicographic order.
\<close>

definition export_json ::
  "midi_constants \<Rightarrow> note_sequence \<Rightarrow> tempo list \<Rightarrow> time_signature list \<Rightarrow> js_error + parsed_midi" where
  "export_json c ns tempos0 timeSignatures0 =
     (if length tempos0 \<noteq> 1 \<or> tempo_time (tempos0 ! 0) \<noteq> 0
      then Inl (MidiConversionError ''NoteSequence must have exactly 1 tempo at time 0'')
      else if length timeSignatures0 \<noteq> 1 \<or> ts_time (timeSignatures0 ! 0) \<noteq> 0
      then Inl (MidiConversionError ''NoteSequence must have exactly 1 time signature at time 0'')
      else
        (let json_header =
               \<lparr>bpm = qpm (tempos0 ! 0),
                PPQ = (case ticksPerQuarter ns of
                         None \<Rightarrow> DEFAULT_TICKS_PER_QUARTER c
                       | Some t \<Rightarrow> if t \<noteq> 0 then t else DEFAULT_TICKS_PER_QUARTER c),
                timeSignature =
                  Some (numerator (timeSignatures0 ! 0), denominator (timeSignatures0 ! 0))\<rparr>;
             tracks0 = fold track_note (notes ns) [];
             instruments = sort_key js_number_toString (map fst tracks0)
         in case build_tracks c tracks0 0 instruments [] of
              Inl e \<Rightarrow> Inl e
            | Inr json_tracks \<Rightarrow> Inr \<lparr>header = json_header, tracks = json_tracks\<rparr>))"

text \<open>
  The call returns the caller's object as the call leaves it, together with the
  structure handed to \<^verbatim>\<open>midiconvert.fromJSON\<close> or the exception thrown. The two
  assignments at the top are the only writes to \<^verbatim>\<open>ns\<close>; the notes are pushed onto
  arrays created by the call.
\<close>

definition sequenceProtoToMidi ::
  "midi_constants \<Rightarrow> note_sequence \<Rightarrow> note_sequence \<times> (js_error + parsed_midi)" where
  "sequenceProtoToMidi c ns0 =
     (let ns1 = (if absent_or_empty (tempos ns0)
                 then ns0\<lparr>tempos :=
                        Some [\<lparr>tempo_time = 0, qpm = DEFAULT_QUARTERS_PER_MINUTE c\<rparr>]\<rparr>
                 else ns0);
          ns2 = (if absent_or_empty (timeSignatures ns1)
                 then ns1\<lparr>timeSignatures :=
                        Some [\<lparr>ts_time = 0, numerator = 4, denominator = 4\<rparr>]\<rparr>
                 else ns1)
      in (ns2,
          case tempos ns2 of
            None \<Rightarrow> Inl TypeError
          | Some tempos0 \<Rightarrow>
              (case timeSignatures ns2 of
                 None \<Rightarrow> Inl TypeError
               | Some timeSignatures0 \<Rightarrow> export_json c ns2 tempos0 timeSignatures0)))"

text \<open>
  Modelled from the spec: the MIDI adapter (\<^verbatim>\<open>midiconvert\<close>, an external library) is
  treated as the identity on the exchanged structure, so that the import reads the
  very structure the export built.
\<close>

definition export_then_import :: "midi_constants \<Rightarrow> Note \<Rightarrow> note_sequence \<Rightarrow> js_error + note_sequence" where
  "export_then_import c Note_new ns =
     (case snd (sequenceProtoToMidi c ns) of
        Inl e \<Rightarrow> Inl e
      | Inr json \<Rightarrow> Inr (midiToSequenceProto Note_new json))"

subsection \<open>Notions used in the statements\<close>

text \<open>
  The notes of a pianoroll, read off cell by cell: the active cells in the order step,
  pitch, voice, each as the one-step note the decoder builds for it.
\<close>

definition indexed :: "(nat \<Rightarrow> 'a \<Rightarrow> 'b list) \<Rightarrow> nat \<Rightarrow> 'a list \<Rightarrow> 'b list" where
  "indexed f n xs = concat (map (\<lambda>(i, x). f i x) (enumerate n xs))"

definition cell_notes :: "Note \<Rightarrow> nat \<Rightarrow> nat \<Rightarrow> nat \<Rightarrow> real \<Rightarrow> Note list" where
  "cell_notes Note_new stepIndex pitchIndex voiceIndex value =
     (if value = 1
      then [Note_new\<lparr>pitch := int pitchIndex + MIN_PITCH,
                      instrument := Some (int voiceIndex),
                      quantizedStartStep := int stepIndex,
                      quantizedEndStep := int stepIndex + 1\<rparr>]
      else [])"

definition roll_notes :: "Note \<Rightarrow> nat \<Rightarrow> pianoroll \<Rightarrow> Note list" where
  "roll_notes Note_new n pianoroll =
     indexed (\<lambda>stepIndex. indexed (\<lambda>pitchIndex. indexed (cell_notes Note_new stepIndex pitchIndex) 0) 0)
       n pianoroll"

text \<open>A note lies inside a pianoroll of \<open>numberOfSteps\<close> steps.\<close>

definition in_range :: "nat \<Rightarrow> Note \<Rightarrow> bool" where
  "in_range numberOfSteps note \<longleftrightarrow>
     0 \<le> quantizedStartStep note \<and> quantizedEndStep note \<le> int numberOfSteps \<and>
     MIN_PITCH \<le> pitch note \<and> pitch note < MIN_PITCH + int NUM_PITCHES"

text \<open>
  The instrument under which the export files a note, the notes of one instrument in
  their order of appearance, and the notes regrouped by the instruments \<open>0, \<dots>, k - 1\<close>.
\<close>

definition track_key :: "Note \<Rightarrow> int" where
  "track_key note = (case instrument note of None \<Rightarrow> 0 | Some i \<Rightarrow> i)"

definition instrument_notes :: "int \<Rightarrow> Note list \<Rightarrow> Note list" where
  "instrument_notes i ns_notes = filter (\<lambda>n. track_key n = i) ns_notes"

definition by_instrument :: "nat \<Rightarrow> Note list \<Rightarrow> Note list" where
  "by_instrument k ns_notes = concat (map (\<lambda>j. instrument_notes (int j) ns_notes) [0..<k])"

text \<open>The track that the export builds for instrument \<open>i\<close> from the notes filed under it.\<close>

definition exported_track :: "midi_constants \<Rightarrow> int \<Rightarrow> Note list \<Rightarrow> midi_track" where
  "exported_track c i filed =
     \<lparr>track_id = i,
      track_notes = map (to_midi_note c) filed,
      isPercussion = (case isDrum (hd filed) of None \<Rightarrow> False | Some b \<Rightarrow> b),
      channelNumber = (if isDrum (hd filed) = Some True then DRUM_CHANNEL c else DEFAULT_CHANNEL c),
      instrumentNumber = (case program (hd filed) of None \<Rightarrow> DEFAULT_PROGRAM c | Some p \<Rightarrow> p)\<rparr>"

text \<open>
  What a note of the sequence \<open>ns_notes\<close> becomes when the export is followed by the
  import: the track values come from the first note filed under the same instrument.
\<close>

definition reimported :: "midi_constants \<Rightarrow> Note \<Rightarrow> Note list \<Rightarrow> Note \<Rightarrow> Note" where
  "reimported c Note_new ns_notes note =
     (let first = hd (instrument_notes (track_key note) ns_notes)
      in Note_new
           \<lparr>instrument := Some (track_key note),
            program := Some (case program first of None \<Rightarrow> DEFAULT_PROGRAM c | Some p \<Rightarrow> p),
            startTime := startTime note,
            endTime := startTime note + (endTime note - startTime note),
            pitch := pitch note,
            velocity :=
              Some ((case velocity note of None \<Rightarrow> DEFAULT_VELOCITY c | Some v \<Rightarrow> v) + 1),
            isDrum := Some (case isDrum first of None \<Rightarrow> False | Some b \<Rightarrow> b)\<rparr>)"

text \<open>A note with every field zero, to build concrete inputs from.\<close>

definition Note_zero :: Note where
  "Note_zero =
     \<lparr>pitch = 0, instrument = Some 0, program = Some 0, startTime = 0, endTime = 0,
      velocity = Some 0, isDrum = Some False, quantizedStartStep = 0, quantizedEndStep = 0\<rparr>"

text \<open>Concrete inputs: a set of constants, a parsed MIDI structure and NoteSequences.\<close>

definition example_constants :: midi_constants where
  "example_constants =
     \<lparr>DEFAULT_QUARTERS_PER_MINUTE = 120, DEFAULT_TICKS_PER_QUARTER = 220, DEFAULT_VELOCITY = 80,
      DEFAULT_PROGRAM = 0, DRUM_CHANNEL = 9, DEFAULT_CHANNEL = 0\<rparr>"

definition example_midi :: parsed_midi where
  "example_midi =
     \<lparr>header = \<lparr>bpm = 120, PPQ = 220, timeSignature = None\<rparr>,
      tracks =
        [\<lparr>track_id = 0,
          track_notes =
            [\<lparr>midi = 60, note_time = 2, duration = 1, note_velocity = 8 / 10\<rparr>,
             \<lparr>midi = 62, note_time = 0, duration = 1 / 2, note_velocity = 1 / 2\<rparr>],
          isPercussion = False, channelNumber = 0, instrumentNumber = 5\<rparr>,
         \<lparr>track_id = 1, track_notes = [],
          isPercussion = False, channelNumber = 1, instrumentNumber = 7\<rparr>,
         \<lparr>track_id = 2,
          track_notes = [\<lparr>midi = 36, note_time = 1, duration = 1, note_velocity = 1 / 4\<rparr>],
          isPercussion = True, channelNumber = 9, instrumentNumber = 0\<rparr>]\<rparr>"

definition example_sequence :: "Note list \<Rightarrow> note_sequence" where
  "example_sequence ns_notes =
     NoteSequence_create
       \<lparr>tempos := Some [\<lparr>tempo_time = 0, qpm = 120\<rparr>],
        timeSignatures := Some [\<lparr>ts_time = 0, numerator = 4, denominator = 4\<rparr>],
        notes := ns_notes\<rparr>"

text \<open>Eleven notes, one for each of the instruments 0 to 10, in ascending order.\<close>

definition eleven_instruments :: note_sequence where
  "eleven_instruments =
     example_sequence
       (map (\<lambda>i. Note_zero\<lparr>instrument := Some i, pitch := 60 + i, velocity := Some 100\<rparr>)
          [0, 1, 2, 3, 4, 5, 6, 7, 8, 9, 10])"

section \<open>Properties\<close>

subsection \<open>flatArrayToPianoroll\<close>

lemma flatArrayToPianoroll_cells:
  "\<exists>T. flatArrayToPianoroll buf N = Inr T \<and> length T = N \<and>
       (\<forall>s<N. length (T ! s) = 46 \<and>
          (\<forall>p<46. T ! s ! p = take 4 (drop (s * 46 * 4 + p * 4) buf)))"
  by (simp add: flatArrayToPianoroll_def NUM_PITCHES_def slice_def)

lemma row_in_buffer:
  fixes s p N :: nat
  assumes "s < N" "p < 46"
  shows "s * 46 * 4 + p * 4 + 4 \<le> N * 46 * 4"
proof -
  from assms have "Suc s \<le> N" by simp
  then have "Suc s * 184 \<le> N * 184" by (rule mult_le_mono1)
  with assms show ?thesis by simp
qed

text \<open>
  Claim C6. For a buffer of length exactly \<open>N \<times> 46 \<times> 4\<close> the call returns a
  tensor of shape \<open>[N][46][4]\<close> whose cell \<open>[s][p][v]\<close> is the buffer element at
  \<open>s \<sqdot> 46 \<sqdot> 4 + p \<sqdot> 4 + v\<close>: the row-major reshape.
\<close>

theorem flatArrayToPianoroll_reshape:
  assumes "length buf = N * 46 * 4"
  shows "\<exists>T. flatArrayToPianoroll buf N = Inr T \<and> length T = N \<and>
           (\<forall>s<N. length (T ! s) = 46 \<and>
              (\<forall>p<46. length (T ! s ! p) = 4 \<and>
                 (\<forall>v<4. T ! s ! p ! v = buf ! (s * 46 * 4 + p * 4 + v))))"
proof -
  from flatArrayToPianoroll_cells [of buf N] obtain T where
    T: "flatArrayToPianoroll buf N = Inr T" "length T = N"
    and rows: "\<And>s. s < N \<Longrightarrow> length (T ! s) = 46"
    and cells: "\<And>s p. s < N \<Longrightarrow> p < 46 \<Longrightarrow>
                  T ! s ! p = take 4 (drop (s * 46 * 4 + p * 4) buf)"
    by blast
  have "length (T ! s ! p) = 4 \<and> (\<forall>v<4. T ! s ! p ! v = buf ! (s * 46 * 4 + p * 4 + v))"
    if "s < N" "p < 46" for s p
  proof -
    let ?i = "s * 46 * 4 + p * 4"
    from row_in_buffer [OF that] assms have le: "?i + 4 \<le> length buf" by simp
    have row: "T ! s ! p = take 4 (drop ?i buf)" by (rule cells [OF that])
    from le have "length (take 4 (drop ?i buf)) = 4" by simp
    moreover have "take 4 (drop ?i buf) ! v = buf ! (?i + v)" if "v < 4" for v
      using that le by simp
    ultimately show ?thesis by (simp add: row)
  qed
  with T rows show ?thesis by blast
qed

theorem flatArrayToPianoroll_reshape_witness:
  "length (map real [0..<184]) = 1 * 46 * 4 \<and>
   (\<exists>T. flatArrayToPianoroll (map real [0..<184]) 1 = Inr T \<and> length T = 1 \<and>
        length (T ! 0) = 46 \<and> length (T ! 0 ! 45) = 4 \<and> T ! 0 ! 45 ! 3 = 183)"
proof -
  have h: "length (map real [0..<184]) = 1 * 46 * 4" by simp
  from flatArrayToPianoroll_reshape [OF h] obtain T where
    T: "flatArrayToPianoroll (map real [0..<184]) 1 = Inr T" "length T = 1"
    and cells: "\<forall>s<1. length (T ! s) = 46 \<and>
              (\<forall>p<46. length (T ! s ! p) = 4 \<and>
                 (\<forall>v<4. T ! s ! p ! v = map real [0..<184] ! (s * 46 * 4 + p * 4 + v)))"
    by blast
  from cells have "length (T ! 0) = 46" "length (T ! 0 ! 45) = 4"
    "T ! 0 ! 45 ! 3 = map real [0..<184] ! (0 * 46 * 4 + 45 * 4 + 3)" by simp_all
  with T h show ?thesis by simp
qed

text \<open>
  Claim C2, as stated, asks a buffer shorter than \<open>N \<times> 46 \<times> 4\<close> to be rejected.
  The code has no length check and \<^verbatim>\<open>slice\<close> clamps: on the empty buffer with one
  step it returns one step of 46 empty rows.
\<close>

theorem flatArrayToPianoroll_short_buffer_counterexample:
  "length ([] :: real list) < 1 * 46 * 4 \<and>
   flatArrayToPianoroll ([] :: real list) 1 = Inr [replicate 46 []]"
  by (simp add: flatArrayToPianoroll_def NUM_PITCHES_def slice_def map_replicate_trivial)

text \<open>
  Claim C2, amended. Every call returns, without error, \<open>N\<close> steps of 46 rows, row
  \<open>(s, p)\<close> being \<^verbatim>\<open>buffer.slice(i, i + 4)\<close> at \<open>i = s \<sqdot> 46 \<sqdot> 4 + p \<sqdot> 4\<close>, so
  that on a short buffer the rows reaching past its end are shorter than 4 or empty;
  on a buffer of length at least \<open>N \<times> 46 \<times> 4\<close> the elements beyond that length
  are ignored.
\<close>

theorem flatArrayToPianoroll_total:
  "\<exists>T. flatArrayToPianoroll buf N = Inr T \<and> length T = N \<and>
       (\<forall>s<N. length (T ! s) = 46 \<and>
          (\<forall>p<46. T ! s ! p = take 4 (drop (s * 46 * 4 + p * 4) buf))) \<and>
       (N * 46 * 4 \<le> length buf \<longrightarrow>
          flatArrayToPianoroll (take (N * 46 * 4) buf) N = Inr T)"
proof -
  from flatArrayToPianoroll_cells [of buf N] obtain T where
    T: "flatArrayToPianoroll buf N = Inr T" "length T = N"
    and cells: "\<forall>s<N. length (T ! s) = 46 \<and>
          (\<forall>p<46. T ! s ! p = take 4 (drop (s * 46 * 4 + p * 4) buf))"
    by blast
  let ?short = "take (N * 46 * 4) buf"
  from flatArrayToPianoroll_cells [of ?short N] obtain U where
    U: "flatArrayToPianoroll ?short N = Inr U" "length U = N"
    and cellsU: "\<forall>s<N. length (U ! s) = 46 \<and>
          (\<forall>p<46. U ! s ! p = take 4 (drop (s * 46 * 4 + p * 4) ?short))"
    by blast
  have same: "take 4 (drop (s * 46 * 4 + p * 4) ?short) = take 4 (drop (s * 46 * 4 + p * 4) buf)"
    if "s < N" "p < 46" for s p
  proof -
    from row_in_buffer [OF that] have "s * 46 * 4 + p * 4 + 4 \<le> N * 46 * 4" .
    then have "4 \<le> N * 46 * 4 - (s * 46 * 4 + p * 4)" by simp
    then show ?thesis by (simp only: drop_take take_take min_absorb1)
  qed
  have "U ! s = T ! s" if "s < N" for s
  proof (rule nth_equalityI)
    from that cells cellsU show "length (U ! s) = length (T ! s)" by simp
  next
    fix p assume "p < length (U ! s)"
    with that cellsU have p: "p < 46" by simp
    with that cells cellsU same show "U ! s ! p = T ! s ! p" by simp
  qed
  with T U have "U = T" by (simp add: nth_equalityI)
  with T U cells show ?thesis by blast
qed

theorem flatArrayToPianoroll_total_witness:
  "1 * 46 * 4 \<le> length (map real [0..<185]) \<and>
   (\<exists>T. flatArrayToPianoroll (map real [0..<185]) 1 = Inr T \<and> length T = 1 \<and>
        length (T ! 0) = 46 \<and> T ! 0 ! 45 = [180, 181, 182, 183] \<and>
        flatArrayToPianoroll (take (1 * 46 * 4) (map real [0..<185])) 1 = Inr T)"
proof -
  let ?buf = "map real [0..<185]"
  have h: "1 * 46 * 4 \<le> length ?buf" by simp
  from flatArrayToPianoroll_total [of ?buf 1] obtain T where
    T: "flatArrayToPianoroll ?buf 1 = Inr T" "length T = 1"
    and cells: "\<forall>s<1. length (T ! s) = 46 \<and>
          (\<forall>p<46. T ! s ! p = take 4 (drop (s * 46 * 4 + p * 4) ?buf))"
    and long: "1 * 46 * 4 \<le> length ?buf \<longrightarrow>
          flatArrayToPianoroll (take (1 * 46 * 4) ?buf) 1 = Inr T"
    by blast
  have row: "take 4 (drop (0 * 46 * 4 + 45 * 4) ?buf) = [180, 181, 182, 183]"
    by code_simp
  from cells have "length (T ! 0) = 46"
    "T ! 0 ! 45 = take 4 (drop (0 * 46 * 4 + 45 * 4) ?buf)" by simp_all
  with T h long row show ?thesis by simp
qed

subsection \<open>pianorollToSequence\<close>

lemma indexed_Nil [simp]: "indexed f n [] = []"
  by (simp add: indexed_def)

lemma indexed_Cons [simp]: "indexed f n (x # xs) = f n x @ indexed f (Suc n) xs"
  by (simp add: indexed_def)

lemma indexed_append: "indexed f n (xs @ ys) = indexed f n xs @ indexed f (n + length xs) ys"
  by (induction xs arbitrary: n) simp_all

lemma indexed_empty_iff:
  assumes "\<And>i x. f i x = [] \<longleftrightarrow> P x"
  shows "indexed f n xs = [] \<longleftrightarrow> (\<forall>x\<in>set xs. P x)"
  by (induction xs arbitrary: n) (simp_all add: assms)

lemma fold_appending:
  assumes "\<And>i x acc. f x i acc = acc @ g i x"
  shows "fold (\<lambda>(i, x). f x i) ps acc = acc @ concat (map (\<lambda>(i, x). g i x) ps)"
  by (induction ps arbitrary: acc) (simp_all add: assms split_beta)

lemma forEach_appending:
  assumes "\<And>i x acc. f x i acc = acc @ g i x"
  shows "forEach f xs acc = acc @ indexed g 0 xs"
  unfolding forEach_def indexed_def by (rule fold_appending [OF assms])

lemma emit_notes_roll_notes: "emit_notes blank T = roll_notes blank 0 T"
proof -
  have cell: "forEach (\<lambda>value voiceIndex notes0.
           if value = 1
           then notes0 @
             [blank\<lparr>pitch := int p + MIN_PITCH, instrument := Some (int voiceIndex),
                       quantizedStartStep := int s, quantizedEndStep := int s + 1\<rparr>]
           else notes0) row acc = acc @ indexed (cell_notes blank s p) 0 row" for s p row acc
    by (rule forEach_appending) (simp add: cell_notes_def)
  have step: "forEach (\<lambda>pitch_row pitchIndex.
         forEach (\<lambda>value voiceIndex notes0.
           if value = 1
           then notes0 @
             [blank\<lparr>pitch := int pitchIndex + MIN_PITCH, instrument := Some (int voiceIndex),
                       quantizedStartStep := int s, quantizedEndStep := int s + 1\<rparr>]
           else notes0) pitch_row) step acc
       = acc @ indexed (\<lambda>p. indexed (cell_notes blank s p) 0) 0 step" for s step acc
    by (rule forEach_appending) (simp add: cell)
  show ?thesis
    unfolding emit_notes_def roll_notes_def
    by (subst forEach_appending [where g = "\<lambda>s. indexed (\<lambda>p. indexed (cell_notes blank s p) 0) 0"])
       (simp_all add: step)
qed


lemma roll_notes_empty_iff:
  "roll_notes blank n T = [] \<longleftrightarrow> (\<forall>step\<in>set T. \<forall>row\<in>set step. 1 \<notin> set row)"
proof -
  have cell: "indexed (cell_notes blank s p) 0 row = [] \<longleftrightarrow> (\<forall>x\<in>set row. x \<noteq> 1)" for s p row
    by (rule indexed_empty_iff) (simp add: cell_notes_def)
  have step: "indexed (\<lambda>p. indexed (cell_notes blank s p) 0) 0 step = []
      \<longleftrightarrow> (\<forall>row\<in>set step. \<forall>x\<in>set row. x \<noteq> 1)" for s step
    by (rule indexed_empty_iff) (rule cell)
  have "roll_notes blank n T = [] \<longleftrightarrow> (\<forall>step\<in>set T. \<forall>row\<in>set step. \<forall>x\<in>set row. x \<noteq> 1)"
    unfolding roll_notes_def by (rule indexed_empty_iff) (rule step)
  then show ?thesis by auto
qed

text \<open>
  Claim C10. When no cell of the pianoroll equals 1 no note is emitted, the read of
  \<^verbatim>\<open>notes[notes.length - 1].quantizedEndStep\<close> goes out of bounds and the call ends in
  a \<^verbatim>\<open>TypeError\<close> instead of a NoteSequence. When some cell equals 1 the index
  \<open>length - 1\<close> is in bounds, the call returns, and \<open>totalQuantizedSteps\<close> is the
  \<open>quantizedEndStep\<close> of the last emitted note.
\<close>

theorem pianorollToSequence_last_note:
  "((\<exists>step\<in>set T. \<exists>row\<in>set step. 1 \<in> set row) \<longrightarrow>
      (\<exists>seq. pianorollToSequence blank T = Inr seq \<and> notes seq = emit_notes blank T \<and>
         notes seq \<noteq> [] \<and> length (notes seq) - 1 < length (notes seq) \<and>
         totalQuantizedSteps seq = quantizedEndStep (last (notes seq)))) \<and>
   (\<not> (\<exists>step\<in>set T. \<exists>row\<in>set step. 1 \<in> set row) \<longrightarrow>
      emit_notes blank T = [] \<and> pianorollToSequence blank T = Inl TypeError)"
proof (cases "emit_notes blank T = []")
  case True
  then have "\<not> (\<exists>step\<in>set T. \<exists>row\<in>set step. 1 \<in> set row)"
    by (simp add: emit_notes_roll_notes roll_notes_empty_iff)
  with True show ?thesis by (simp add: pianorollToSequence_def)
next
  case False
  then have "\<exists>step\<in>set T. \<exists>row\<in>set step. 1 \<in> set row"
    by (simp add: emit_notes_roll_notes roll_notes_empty_iff)
  with False show ?thesis
    by (simp add: pianorollToSequence_def Let_def last_conv_nth)
qed

theorem pianorollToSequence_last_note_witness:
  "(\<exists>seq. pianorollToSequence Note_zero [[[0, 0, 0, 0], [0, 0, 1, 0]]] = Inr seq \<and>
      notes seq = emit_notes Note_zero [[[0, 0, 0, 0], [0, 0, 1, 0]]] \<and>
      notes seq \<noteq> [] \<and> totalQuantizedSteps seq = 1) \<and>
   emit_notes Note_zero [[[0, 0, 0, 0]], []] = [] \<and>
   pianorollToSequence Note_zero [[[0, 0, 0, 0]], []] = Inl TypeError"
proof -
  let ?T = "[[[0, 0, 0, 0], [0, 0, 1, 0 :: real]]]"
  have active: "\<exists>step\<in>set ?T. \<exists>row\<in>set step. 1 \<in> set row" by simp
  have idle: "\<not> (\<exists>step\<in>set [[[0, 0, 0, 0 :: real]], []]. \<exists>row\<in>set step. 1 \<in> set row)" by simp
  from pianorollToSequence_last_note [of ?T Note_zero] active obtain seq where
    seq: "pianorollToSequence Note_zero ?T = Inr seq" "notes seq = emit_notes Note_zero ?T"
      "notes seq \<noteq> []" "totalQuantizedSteps seq = quantizedEndStep (last (notes seq))"
    by blast
  have "emit_notes Note_zero ?T =
      [Note_zero\<lparr>pitch := 37, instrument := Some 2, quantizedStartStep := 0, quantizedEndStep := 1\<rparr>]"
    by (simp add: emit_notes_def forEach_def enumerate_eq_zip MIN_PITCH_def)
  with seq have "totalQuantizedSteps seq = 1" by simp
  with seq pianorollToSequence_last_note [of "[[[0, 0, 0, 0]], []]" Note_zero] idle
  show ?thesis by blast
qed

subsection \<open>sequenceToPianoroll\<close>

lemma invalid_voice_simps [simp]:
  "invalid_voice None = False" "invalid_voice (Some v) \<longleftrightarrow> v < 0 \<or> 3 < v"
  by (auto simp: invalid_voice_def)

lemma buildEmptyPianoroll_replicate:
  "buildEmptyPianoroll N = replicate N (replicate 46 [0, 0, 0, 0])"
  by (simp add: buildEmptyPianoroll_def NUM_PITCHES_def map_replicate_trivial)

lemma write_steps_in_range:
  assumes "length T = N" "\<forall>step\<in>set T. length step = 46"
    and "0 \<le> i" "i + int k \<le> int N" "0 \<le> q" "q < 46"
  shows "\<exists>T'. write_steps T q voice i k = Inr T' \<and> length T' = N \<and>
           (\<forall>step\<in>set T'. length step = 46)"
  using assms
proof (induction k arbitrary: T i)
  case 0
  then show ?case by simp
next
  case (Suc k)
  let ?step = "T ! nat i"
  let ?cell = "case voice of None \<Rightarrow> ?step ! nat q | Some v \<Rightarrow> (?step ! nat q)[nat v := 1]"
  let ?T = "T[nat i := ?step[nat q := ?cell]]"
  from Suc.prems have i: "nat i < length T" by simp
  then have "?step \<in> set T" by simp
  with Suc.prems have len: "length ?step = 46" by blast
  have "set ?T \<subseteq> insert (?step[nat q := ?cell]) (set T)"
    by (rule set_update_subset_insert)
  with len Suc.prems(2) have steps: "\<forall>step\<in>set ?T. length step = 46" by auto
  from Suc.prems have "\<exists>T'. write_steps ?T q voice (i + 1) k = Inr T' \<and> length T' = N \<and>
           (\<forall>step\<in>set T'. length step = 46)"
    by (intro Suc.IH steps) simp_all
  moreover from Suc.prems i len
  have "write_steps T q voice i (Suc k) = write_steps ?T q voice (i + 1) k"
    by (simp add: Let_def)
  ultimately show ?case by simp
qed

lemma write_note_in_range:
  assumes "length T = N" "\<forall>step\<in>set T. length step = 46"
    and "in_range N n" "\<not> invalid_voice (instrument n)"
  shows "\<exists>T'. write_note n T = Inr T' \<and> length T' = N \<and> (\<forall>step\<in>set T'. length step = 46)"
proof (cases "quantizedEndStep n \<le> quantizedStartStep n")
  case True
  then have "nat (quantizedEndStep n - quantizedStartStep n) = 0" by simp
  with assms show ?thesis by (simp add: write_note_def Let_def)
next
  case False
  with assms(3) have "\<exists>T'. write_steps T (pitch n - MIN_PITCH) (instrument n) (quantizedStartStep n)
        (nat (quantizedEndStep n - quantizedStartStep n)) = Inr T' \<and> length T' = N \<and>
        (\<forall>step\<in>set T'. length step = 46)"
    by (intro write_steps_in_range assms(1,2)) (simp_all add: in_range_def NUM_PITCHES_def)
  with assms(4) show ?thesis by (simp add: write_note_def Let_def)
qed

lemma forEach_throwing_in_range:
  assumes "length T = N" "\<forall>step\<in>set T. length step = 46"
    and "\<forall>n\<in>set ns. in_range N n \<and> \<not> invalid_voice (instrument n)"
  shows "\<exists>T'. forEach_throwing write_note ns T = Inr T' \<and> length T' = N \<and>
           (\<forall>step\<in>set T'. length step = 46)"
  using assms
proof (induction ns arbitrary: T)
  case Nil
  then show ?case by simp
next
  case (Cons n ns)
  from Cons.prems obtain T' where T': "write_note n T = Inr T'" "length T' = N"
      "\<forall>step\<in>set T'. length step = 46"
    using write_note_in_range [of T N n] by auto
  from Cons.prems have "\<exists>T''. forEach_throwing write_note ns T' = Inr T'' \<and> length T'' = N \<and>
           (\<forall>step\<in>set T''. length step = 46)"
    by (intro Cons.IH T') simp
  with T' show ?case by simp
qed

lemma forEach_throwing_append:
  "forEach_throwing f (xs @ ys) s =
     (case forEach_throwing f xs s of Inl e \<Rightarrow> Inl e | Inr s' \<Rightarrow> forEach_throwing f ys s')"
  by (induction xs arbitrary: s) (simp_all split: sum.splits)

lemma forEach_throwing_invalid_voice:
  assumes "\<exists>n\<in>set ns. invalid_voice (instrument n)"
  shows "\<exists>e. forEach_throwing write_note ns T = Inl e"
  using assms
proof (induction ns arbitrary: T)
  case Nil
  then show ?case by simp
next
  case (Cons n ns)
  show ?case
  proof (cases "write_note n T")
    case (Inl e)
    then show ?thesis by simp
  next
    case (Inr T')
    then have "\<not> invalid_voice (instrument n)"
      by (auto simp: write_note_def Let_def split: if_splits)
    with Cons.prems have "\<exists>n\<in>set ns. invalid_voice (instrument n)" by simp
    then have "\<exists>e. forEach_throwing write_note ns T' = Inl e" by (rule Cons.IH)
    with Inr show ?thesis by simp
  qed
qed

lemma buildEmptyPianoroll_shape:
  "length (buildEmptyPianoroll N) = N \<and> (\<forall>step\<in>set (buildEmptyPianoroll N). length step = 46)"
  by (simp add: buildEmptyPianoroll_replicate)

lemma write_steps_error:
  "write_steps T q voice i k = Inl e \<Longrightarrow> e = TypeError"
  by (induction k arbitrary: T i) (auto simp: Let_def split: if_splits)

lemma write_note_error:
  assumes "\<not> invalid_voice (instrument n)" "write_note n T = Inl e"
  shows "e = TypeError"
  using assms by (auto simp: write_note_def Let_def dest: write_steps_error)

lemma forEach_throwing_error:
  assumes "\<forall>m\<in>set pre. \<not> invalid_voice (instrument m)"
    and "forEach_throwing write_note pre T = Inl e"
  shows "e = TypeError"
  using assms
proof (induction pre arbitrary: T)
  case Nil
  then show ?case by simp
next
  case (Cons m pre)
  show ?case
  proof (cases "write_note m T")
    case (Inl e')
    with Cons.prems have "e' = e" by simp
    with Inl Cons.prems show ?thesis by (auto dest: write_note_error)
  next
    case (Inr T')
    with Cons.prems have "forEach_throwing write_note pre T' = Inl e" by simp
    with Cons.prems show ?thesis by (intro Cons.IH [of T']) simp_all
  qed
qed

text \<open>
  Claim C4, as stated, promises the invalid-voice error for every sequence holding a
  note with an instrument outside \<open>[0, 3]\<close>. The notes are visited in order and each
  one writes its cells before the next is inspected: below, the first note has a valid
  voice but starts at step 4 of a 4-step pianoroll, its write reads \<^verbatim>\<open>pianoroll[4]\<close>,
  and the call ends in a \<^verbatim>\<open>TypeError\<close> before the note with instrument 4 is reached.
\<close>

theorem sequenceToPianoroll_earlier_note_counterexample:
  "instrument (notes (NoteSequence_create\<lparr>notes :=
        [Note_zero\<lparr>pitch := 60, quantizedStartStep := 4, quantizedEndStep := 5\<rparr>,
         Note_zero\<lparr>pitch := 60, instrument := Some 4\<rparr>]\<rparr>) ! 1) = Some 4 \<and>
   sequenceToPianoroll
     (NoteSequence_create\<lparr>notes :=
        [Note_zero\<lparr>pitch := 60, quantizedStartStep := 4, quantizedEndStep := 5\<rparr>,
         Note_zero\<lparr>pitch := 60, instrument := Some 4\<rparr>]\<rparr>) 4 = Inl TypeError"
  by (simp add: sequenceToPianoroll_def NoteSequence_create_def Note_zero_def write_note_def
      buildEmptyPianoroll_def MIN_PITCH_def)

text \<open>
  Claim C4, amended. A sequence holding a note whose instrument lies outside \<open>[0, 3]\<close>
  always fails and returns no pianoroll: the failure is either the error
  \<^verbatim>\<open>Found invalid voice v. Skipping.\<close> naming the first such instrument \<open>v\<close>, or a
  \<^verbatim>\<open>TypeError\<close>. It is the invalid-voice error when the notes before the first such
  note have instruments in \<open>[0, 3]\<close> and pitches and steps in range. When all notes have
  instruments in \<open>[0, 3]\<close> and pitches and steps in range the call returns a pianoroll
  of \<open>numberOfSteps\<close> steps.
\<close>

theorem sequenceToPianoroll_voices:
  "((\<exists>n\<in>set (notes ns). \<exists>v. instrument n = Some v \<and> (v < 0 \<or> 3 < v)) \<longrightarrow>
      (\<exists>pre n v post. notes ns = pre @ n # post \<and> instrument n = Some v \<and> (v < 0 \<or> 3 < v) \<and>
         (\<forall>m\<in>set pre. \<forall>w. instrument m = Some w \<longrightarrow> 0 \<le> w \<and> w \<le> 3) \<and>
         (sequenceToPianoroll ns N =
            Inl (Error (''Found invalid voice '' @ js_number_toString v @ ''. Skipping.'')) \<or>
          sequenceToPianoroll ns N = Inl TypeError))) \<and>
   (notes ns = pre @ n # post \<and> instrument n = Some v \<and> (v < 0 \<or> 3 < v) \<and>
    (\<forall>m\<in>set pre. in_range N m \<and> (\<exists>w. instrument m = Some w \<and> 0 \<le> w \<and> w \<le> 3)) \<longrightarrow>
      sequenceToPianoroll ns N =
        Inl (Error (''Found invalid voice '' @ js_number_toString v @ ''. Skipping.''))) \<and>
   ((\<forall>m\<in>set (notes ns). in_range N m \<and> (\<exists>w. instrument m = Some w \<and> 0 \<le> w \<and> w \<le> 3)) \<longrightarrow>
      (\<exists>T. sequenceToPianoroll ns N = Inr T \<and> length T = N))"
proof (intro conjI impI)
  assume "\<exists>n\<in>set (notes ns). \<exists>v. instrument n = Some v \<and> (v < 0 \<or> 3 < v)"
  then have "\<exists>n\<in>set (notes ns). invalid_voice (instrument n)"
    by force
  from split_list_first_prop [OF this] obtain pre n post where
    split: "notes ns = pre @ n # post" and n: "invalid_voice (instrument n)"
    and first: "\<forall>m\<in>set pre. \<not> invalid_voice (instrument m)"
    by blast
  from n obtain v where v: "instrument n = Some v" "v < 0 \<or> 3 < v"
    by (cases "instrument n") auto
  let ?err = "Inl (Error (''Found invalid voice '' @ js_number_toString v @ ''. Skipping.'')) :: js_error + pianoroll"
  have n_err: "write_note n T = ?err" for T
    using v by (simp add: write_note_def voice_message_def)
  have "sequenceToPianoroll ns N = ?err \<or> sequenceToPianoroll ns N = Inl TypeError"
  proof (cases "forEach_throwing write_note pre (buildEmptyPianoroll N)")
    case (Inl e)
    with first have "e = TypeError" by (auto dest: forEach_throwing_error)
    with Inl split show ?thesis
      by (simp add: sequenceToPianoroll_def forEach_throwing_append)
  next
    case (Inr T)
    with split n_err [of T] show ?thesis
      by (simp add: sequenceToPianoroll_def forEach_throwing_append)
  qed
  moreover from first have "\<forall>m\<in>set pre. \<forall>w. instrument m = Some w \<longrightarrow> 0 \<le> w \<and> w \<le> 3"
    by force
  ultimately show "\<exists>pre n v post. notes ns = pre @ n # post \<and> instrument n = Some v \<and>
         (v < 0 \<or> 3 < v) \<and>
         (\<forall>m\<in>set pre. \<forall>w. instrument m = Some w \<longrightarrow> 0 \<le> w \<and> w \<le> 3) \<and>
         (sequenceToPianoroll ns N =
            Inl (Error (''Found invalid voice '' @ js_number_toString v @ ''. Skipping.'')) \<or>
          sequenceToPianoroll ns N = Inl TypeError)"
    using split v by blast
next
  assume a: "notes ns = pre @ n # post \<and> instrument n = Some v \<and> (v < 0 \<or> 3 < v) \<and>
    (\<forall>m\<in>set pre. in_range N m \<and> (\<exists>w. instrument m = Some w \<and> 0 \<le> w \<and> w \<le> 3))"
  then have "\<forall>m\<in>set pre. in_range N m \<and> \<not> invalid_voice (instrument m)"
    by force
  with buildEmptyPianoroll_shape [of N] obtain T where
    "forEach_throwing write_note pre (buildEmptyPianoroll N) = Inr T"
    using forEach_throwing_in_range [of "buildEmptyPianoroll N" N pre] by blast
  moreover from a have "write_note n T = Inl (Error (''Found invalid voice '' @ js_number_toString v @ ''. Skipping.''))"
    by (simp add: write_note_def voice_message_def)
  ultimately show "sequenceToPianoroll ns N =
        Inl (Error (''Found invalid voice '' @ js_number_toString v @ ''. Skipping.''))"
    using a by (simp add: sequenceToPianoroll_def forEach_throwing_append)
next
  assume "\<forall>m\<in>set (notes ns). in_range N m \<and> (\<exists>w. instrument m = Some w \<and> 0 \<le> w \<and> w \<le> 3)"
  then have "\<forall>m\<in>set (notes ns). in_range N m \<and> \<not> invalid_voice (instrument m)"
    by force
  with buildEmptyPianoroll_shape [of N]
  show "\<exists>T. sequenceToPianoroll ns N = Inr T \<and> length T = N"
    using forEach_throwing_in_range [of "buildEmptyPianoroll N" N "notes ns"]
    by (auto simp: sequenceToPianoroll_def)
qed

theorem sequenceToPianoroll_voices_witness:
  "sequenceToPianoroll
     (NoteSequence_create\<lparr>notes :=
        [Note_zero\<lparr>pitch := 60, instrument := Some 3, quantizedEndStep := 1\<rparr>,
         Note_zero\<lparr>pitch := 60, instrument := Some 4, quantizedEndStep := 1\<rparr>]\<rparr>) 1
     = Inl (Error ''Found invalid voice 4. Skipping.'') \<and>
   (\<exists>T. sequenceToPianoroll
     (NoteSequence_create\<lparr>notes :=
        [Note_zero\<lparr>pitch := 60, instrument := Some 3, quantizedEndStep := 1\<rparr>]\<rparr>) 1 = Inr T
      \<and> length T = 1) \<and>
   (\<exists>v. sequenceToPianoroll
     (NoteSequence_create\<lparr>notes :=
        [Note_zero\<lparr>pitch := 60, quantizedStartStep := 4, quantizedEndStep := 5\<rparr>,
         Note_zero\<lparr>pitch := 60, instrument := Some 4\<rparr>]\<rparr>) 4
       = Inl (Error (''Found invalid voice '' @ js_number_toString v @ ''. Skipping.'')) \<or>
      sequenceToPianoroll
     (NoteSequence_create\<lparr>notes :=
        [Note_zero\<lparr>pitch := 60, quantizedStartStep := 4, quantizedEndStep := 5\<rparr>,
         Note_zero\<lparr>pitch := 60, instrument := Some 4\<rparr>]\<rparr>) 4 = Inl TypeError)"
proof -
  let ?ok = "Note_zero\<lparr>pitch := 60, instrument := Some 3, quantizedEndStep := 1\<rparr>"
  let ?bad = "Note_zero\<lparr>pitch := 60, instrument := Some 4, quantizedEndStep := 1\<rparr>"
  let ?A = "NoteSequence_create\<lparr>notes := [?ok, ?bad]\<rparr>"
  let ?B = "NoteSequence_create\<lparr>notes := [?ok]\<rparr>"
  let ?late = "Note_zero\<lparr>pitch := 60, quantizedStartStep := 4, quantizedEndStep := 5\<rparr>"
  let ?four = "Note_zero\<lparr>pitch := 60, instrument := Some 4\<rparr>"
  let ?C = "NoteSequence_create\<lparr>notes := [?late, ?four]\<rparr>"
  have ok: "in_range 1 ?ok" "instrument ?ok = Some 3"
    by (simp_all add: in_range_def Note_zero_def MIN_PITCH_def NUM_PITCHES_def)
  have str: "js_number_toString 4 = ''4''" by (simp add: js_number_toString_def)
  have "notes ?A = [?ok] @ ?bad # [] \<and> instrument ?bad = Some 4 \<and> ((4::int) < 0 \<or> 3 < (4::int)) \<and>
    (\<forall>m\<in>set [?ok]. in_range 1 m \<and> (\<exists>w. instrument m = Some w \<and> 0 \<le> w \<and> w \<le> 3))"
    using ok by (simp add: NoteSequence_create_def)
  with sequenceToPianoroll_voices [of ?A 1 "[?ok]" ?bad "[]" 4]
  have A: "sequenceToPianoroll ?A 1 = Inl (Error (''Found invalid voice '' @ js_number_toString 4 @ ''. Skipping.''))"
    by blast
  have "\<forall>m\<in>set (notes ?B). in_range 1 m \<and> (\<exists>w. instrument m = Some w \<and> 0 \<le> w \<and> w \<le> 3)"
    using ok by (simp add: NoteSequence_create_def)
  with sequenceToPianoroll_voices [of ?B 1 "[]" ?bad "[]" 4]
  have B: "\<exists>T. sequenceToPianoroll ?B 1 = Inr T \<and> length T = 1" by blast
  have "\<exists>n\<in>set (notes ?C). \<exists>v. instrument n = Some v \<and> (v < 0 \<or> 3 < v)"
    by (simp add: NoteSequence_create_def)
  with sequenceToPianoroll_voices [of ?C 4 "[]" ?bad "[]" 4]
  have C: "\<exists>v. sequenceToPianoroll ?C 4
       = Inl (Error (''Found invalid voice '' @ js_number_toString v @ ''. Skipping.'')) \<or>
      sequenceToPianoroll ?C 4 = Inl TypeError"
    by blast
  from A B C str show ?thesis by simp
qed

subsection \<open>The pianoroll round trip\<close>

lemma indexed_replicate_empty:
  assumes "\<And>i. f i x = []"
  shows "indexed f n (replicate k x) = []"
  by (induction k arbitrary: n) (simp_all add: assms)

lemma indexed_update_single:
  assumes "\<And>i. f i x = []" "p < k"
  shows "indexed f n ((replicate k x)[p := c]) = f (n + p) c"
proof -
  from assms(2) have "(replicate k x)[p := c] = replicate p x @ c # replicate (k - Suc p) x"
    by (simp add: upd_conv_take_nth_drop)
  then show ?thesis
    by (simp add: indexed_append indexed_replicate_empty assms(1))
qed

lemma cell_row_notes:
  assumes "v < 4"
  shows "indexed (cell_notes blank s p) 0 ([0, 0, 0, 0][v := 1]) = cell_notes blank s p v 1"
proof -
  from assms have "v = 0 \<or> v = 1 \<or> v = 2 \<or> v = 3" by arith
  then show ?thesis
    by (elim disjE) (simp_all add: cell_notes_def numeral_2_eq_2 numeral_3_eq_3)
qed

lemma step_notes_empty:
  "indexed (\<lambda>p. indexed (cell_notes blank s p) 0) n (replicate k [0, 0, 0, 0]) = []"
  by (rule indexed_replicate_empty) (simp add: cell_notes_def)

lemma step_notes_single:
  assumes "p < 46" "v < 4"
  shows "indexed (\<lambda>p. indexed (cell_notes blank s p) 0) 0
           ((replicate 46 [0, 0, 0, 0])[p := [0, 0, 0, 0][v := 1]]) = cell_notes blank s p v 1"
proof -
  have "indexed (\<lambda>p. indexed (cell_notes blank s p) 0) 0
           ((replicate 46 [0, 0, 0, 0])[p := [0, 0, 0, 0][v := 1]])
        = indexed (cell_notes blank s (0 + p)) 0 ([0, 0, 0, 0][v := 1])"
    by (rule indexed_update_single) (simp_all add: cell_notes_def assms)
  also have "\<dots> = cell_notes blank s p v 1"
    by (simp only: add_0 cell_row_notes [OF assms(2)])
  finally show ?thesis .
qed

lemma roll_notes_run:
  assumes "p < 46" "v < 4"
  shows "roll_notes blank n
           (replicate k ((replicate 46 [0, 0, 0, 0])[p := [0, 0, 0, 0][v := 1]]))
         = concat (map (\<lambda>i. cell_notes blank i p v 1) [n..<n + k])"
proof (induction k arbitrary: n)
  case 0
  then show ?case by (simp add: roll_notes_def)
next
  case (Suc k)
  let ?A = "(replicate 46 [0, 0, 0, 0 :: real])[p := [0, 0, 0, 0][v := 1]]"
  have "[n..<n + Suc k] = n # [Suc n..<Suc n + k]" by (simp add: upt_conv_Cons)
  moreover have "roll_notes blank n (replicate (Suc k) ?A)
      = indexed (\<lambda>p. indexed (cell_notes blank n p) 0) 0 ?A @ roll_notes blank (Suc n) (replicate k ?A)"
    by (simp only: roll_notes_def replicate_Suc indexed_Cons)
  ultimately show ?case
    by (simp only: Suc step_notes_single [OF assms] list.map concat.simps)
qed

lemma roll_notes_three:
  assumes "p < 46" "v < 4"
  shows "roll_notes blank 0
           (replicate s (replicate 46 [0, 0, 0, 0]) @
            replicate 3 ((replicate 46 [0, 0, 0, 0])[p := [0, 0, 0, 0][v := 1]]) @
            replicate k (replicate 46 [0, 0, 0, 0]))
         = cell_notes blank s p v 1 @ cell_notes blank (s + 1) p v 1 @ cell_notes blank (s + 2) p v 1"
proof -
  let ?Z = "replicate 46 [0, 0, 0, 0 :: real]"
  let ?A = "?Z[p := [0, 0, 0, 0][v := 1]]"
  let ?F = "\<lambda>stepIndex. indexed (\<lambda>pitchIndex. indexed (cell_notes blank stepIndex pitchIndex) 0) 0"
  have idle: "indexed ?F n (replicate j ?Z) = []" for n j
    by (rule indexed_replicate_empty) (rule step_notes_empty)
  have "[s..<s + 3] = [s, s + 1, s + 2]" by (simp add: upt_conv_Cons)
  with roll_notes_run [OF assms, of blank s 3]
  have run: "indexed ?F s (replicate 3 ?A)
      = cell_notes blank s p v 1 @ cell_notes blank (s + 1) p v 1 @ cell_notes blank (s + 2) p v 1"
    by (simp add: roll_notes_def)
  have "roll_notes blank 0 (replicate s ?Z @ replicate 3 ?A @ replicate k ?Z)
      = indexed ?F 0 (replicate s ?Z) @ indexed ?F s (replicate 3 ?A) @ indexed ?F (s + 3) (replicate k ?Z)"
    unfolding roll_notes_def by (simp only: indexed_append length_replicate add_0 add.assoc)
  with idle run show ?thesis by simp
qed

lemma write_steps_fresh:
  assumes "s + k \<le> length T" "\<forall>i. s \<le> i \<and> i < s + k \<longrightarrow> T ! i = replicate 46 [0, 0, 0, 0]"
    and "p < 46"
  shows "write_steps T (int p) (Some (int v)) (int s) k
         = Inr (take s T @ replicate k ((replicate 46 [0, 0, 0, 0])[p := [0, 0, 0, 0][v := 1]])
                  @ drop (s + k) T)"
  using assms(1,2)
proof (induction k arbitrary: s T)
  case 0
  then show ?case by simp
next
  case (Suc k)
  let ?Z = "replicate 46 [0, 0, 0, 0 :: real]"
  let ?A = "?Z[p := [0, 0, 0, 0][v := 1]]"
  let ?T = "T[s := ?A]"
  from Suc.prems have s: "s < length T" and Ts: "T ! s = ?Z" by simp_all
  have "write_steps ?T (int p) (Some (int v)) (int (Suc s)) k
      = Inr (take (Suc s) ?T @ replicate k ?A @ drop (Suc s + k) ?T)"
  proof (rule Suc.IH)
    from Suc.prems show "Suc s + k \<le> length ?T" by simp
    from Suc.prems show "\<forall>i. Suc s \<le> i \<and> i < Suc s + k \<longrightarrow> ?T ! i = ?Z" by simp
  qed
  moreover from s have "take (Suc s) ?T = take s T @ [?A]"
    by (simp add: take_Suc_conv_app_nth)
  moreover have "drop (Suc s + k) ?T = drop (s + Suc k) T" by simp
  moreover from s Ts assms(3)
  have "write_steps T (int p) (Some (int v)) (int s) (Suc k)
      = write_steps ?T (int p) (Some (int v)) (int (Suc s)) k"
    by (simp add: Let_def add.commute)
  ultimately show ?case by (simp add: replicate_append_same)
qed

lemma write_steps_three:
  assumes "s + 3 \<le> N" "p < 46"
  shows "write_steps (buildEmptyPianoroll N) (int p) (Some (int v)) (int s) 3
         = Inr (replicate s (replicate 46 [0, 0, 0, 0]) @
                replicate 3 ((replicate 46 [0, 0, 0, 0])[p := [0, 0, 0, 0][v := 1]]) @
                replicate (N - (s + 3)) (replicate 46 [0, 0, 0, 0]))"
proof -
  let ?Z = "replicate 46 [0, 0, 0, 0 :: real]"
  from assms have "write_steps (replicate N ?Z) (int p) (Some (int v)) (int s) 3
      = Inr (take s (replicate N ?Z) @ replicate 3 (?Z[p := [0, 0, 0, 0][v := 1]])
               @ drop (s + 3) (replicate N ?Z))"
    by (intro write_steps_fresh) simp_all
  with assms show ?thesis by (simp add: buildEmptyPianoroll_replicate min_def)
qed

text \<open>
  Claim C5. A sequence of one note with pitch \<open>p\<close> in \<open>[36, 82)\<close>, voice \<open>v\<close> in
  \<open>[0, 3]\<close>, start step \<open>s \<ge> 0\<close> and end step \<open>s + 3\<close>, encoded into a pianoroll of
  at least \<open>s + 3\<close> steps and decoded again, gives exactly three notes of one step each,
  at the steps \<open>s\<close>, \<open>s + 1\<close> and \<open>s + 2\<close>, with pitch \<open>p\<close> and instrument \<open>v\<close>.
\<close>

theorem pianoroll_roundtrip_three_steps:
  assumes "MIN_PITCH \<le> p" "p < MIN_PITCH + int NUM_PITCHES" "0 \<le> v" "v \<le> 3"
    and "0 \<le> s" "s + 3 \<le> int numSteps"
    and "notes ns = [n]" "pitch n = p" "instrument n = Some v"
    and "quantizedStartStep n = s" "quantizedEndStep n = s + 3"
  shows "\<exists>T seq. sequenceToPianoroll ns numSteps = Inr T \<and>
           pianorollToSequence Note_new T = Inr seq \<and>
           notes seq =
             [Note_new\<lparr>pitch := p, instrument := Some v,
                       quantizedStartStep := s, quantizedEndStep := s + 1\<rparr>,
              Note_new\<lparr>pitch := p, instrument := Some v,
                       quantizedStartStep := s + 1, quantizedEndStep := s + 2\<rparr>,
              Note_new\<lparr>pitch := p, instrument := Some v,
                       quantizedStartStep := s + 2, quantizedEndStep := s + 3\<rparr>]"
proof -
  let ?Z = "replicate 46 [0, 0, 0, 0 :: real]"
  define p' v' s' where "p' = nat (p - MIN_PITCH)" and "v' = nat v" and "s' = nat s"
  with assms have idx: "p - MIN_PITCH = int p'" "v = int v'" "s = int s'"
    and bounds: "p' < 46" "v' < 4" "s' + 3 \<le> numSteps"
    by (simp_all add: NUM_PITCHES_def)
  let ?T = "replicate s' ?Z @ replicate 3 (?Z[p' := [0, 0, 0, 0][v' := 1]]) @
            replicate (numSteps - (s' + 3)) ?Z"
  from assms idx have "sequenceToPianoroll ns numSteps
      = write_steps (buildEmptyPianoroll numSteps) (int p') (Some (int v')) (int s') 3"
    by (simp add: sequenceToPianoroll_def write_note_def split: sum.splits)
  with bounds have enc: "sequenceToPianoroll ns numSteps = Inr ?T"
    by (simp only: write_steps_three)
  from bounds have "emit_notes Note_new ?T
      = cell_notes Note_new s' p' v' 1 @ cell_notes Note_new (s' + 1) p' v' 1 @
        cell_notes Note_new (s' + 2) p' v' 1"
    by (simp only: emit_notes_roll_notes roll_notes_three)
  also from idx have "\<dots> =
             [Note_new\<lparr>pitch := p, instrument := Some v,
                       quantizedStartStep := s, quantizedEndStep := s + 1\<rparr>,
              Note_new\<lparr>pitch := p, instrument := Some v,
                       quantizedStartStep := s + 1, quantizedEndStep := s + 2\<rparr>,
              Note_new\<lparr>pitch := p, instrument := Some v,
                       quantizedStartStep := s + 2, quantizedEndStep := s + 3\<rparr>]"
    by (simp add: cell_notes_def algebra_simps)
  finally have dec: "emit_notes Note_new ?T = \<dots>" .
  then have "\<exists>seq. pianorollToSequence Note_new ?T = Inr seq \<and> notes seq = emit_notes Note_new ?T"
    by (simp add: pianorollToSequence_def Let_def)
  with enc dec show ?thesis by metis
qed


theorem pianoroll_roundtrip_three_steps_witness:
  "\<exists>T seq.
     sequenceToPianoroll
       (NoteSequence_create\<lparr>notes :=
          [Note_zero\<lparr>pitch := 60, instrument := Some 2,
                      quantizedStartStep := 1, quantizedEndStep := 4\<rparr>]\<rparr>) 5 = Inr T \<and>
     pianorollToSequence Note_zero T = Inr seq \<and>
     notes seq =
       [Note_zero\<lparr>pitch := 60, instrument := Some 2,
                   quantizedStartStep := 1, quantizedEndStep := 2\<rparr>,
        Note_zero\<lparr>pitch := 60, instrument := Some 2,
                   quantizedStartStep := 2, quantizedEndStep := 3\<rparr>,
        Note_zero\<lparr>pitch := 60, instrument := Some 2,
                   quantizedStartStep := 3, quantizedEndStep := 4\<rparr>]"
proof -
  let ?n = "Note_zero\<lparr>pitch := 60, instrument := Some 2,
                      quantizedStartStep := 1, quantizedEndStep := 4\<rparr>"
  let ?ns = "NoteSequence_create\<lparr>notes := [?n]\<rparr>"
  have "MIN_PITCH \<le> 60" "60 < MIN_PITCH + int NUM_PITCHES" "(0::int) \<le> 2" "(2::int) \<le> 3"
    "(0::int) \<le> 1" "(1::int) + 3 \<le> int 5"
    "notes ?ns = [?n]" "pitch ?n = 60" "instrument ?n = Some 2"
    "quantizedStartStep ?n = 1" "quantizedEndStep ?n = 1 + 3"
    by (simp_all add: MIN_PITCH_def NUM_PITCHES_def NoteSequence_create_def)
  from pianoroll_roundtrip_three_steps [OF this, of Note_zero]
  show ?thesis by simp
qed

subsection \<open>sequenceProtoToMidi: the caller's object\<close>

lemma absent_or_empty_iff: "absent_or_empty xs \<longleftrightarrow> xs = None \<or> xs = Some []"
  by (cases xs) (simp_all add: absent_or_empty_def)

text \<open>
  Claim C9. When the input has a non-empty \<open>tempos\<close> list and a non-empty
  \<open>timeSignatures\<close> list, the object the caller passed is the same after the call as
  before it, whether the export succeeds or throws. In general the call changes at most
  the fields \<open>tempos\<close> and \<open>timeSignatures\<close>, each only when it is absent or empty, to
  the one-element default list.
\<close>

theorem sequenceProtoToMidi_frame:
  "(tempos ns = Some ts \<and> ts \<noteq> [] \<and> timeSignatures ns = Some tss \<and> tss \<noteq> [] \<longrightarrow>
      fst (sequenceProtoToMidi c ns) = ns) \<and>
   fst (sequenceProtoToMidi c ns) =
     ns\<lparr>tempos :=
          (if tempos ns = None \<or> tempos ns = Some []
           then Some [\<lparr>tempo_time = 0, qpm = DEFAULT_QUARTERS_PER_MINUTE c\<rparr>] else tempos ns),
        timeSignatures :=
          (if timeSignatures ns = None \<or> timeSignatures ns = Some []
           then Some [\<lparr>ts_time = 0, numerator = 4, denominator = 4\<rparr>] else timeSignatures ns)\<rparr>"
  by (simp add: sequenceProtoToMidi_def Let_def absent_or_empty_iff)

theorem sequenceProtoToMidi_frame_witness:
  "fst (sequenceProtoToMidi example_constants
          (example_sequence [Note_zero\<lparr>pitch := 60, endTime := 1, velocity := Some 100\<rparr>]))
     = example_sequence [Note_zero\<lparr>pitch := 60, endTime := 1, velocity := Some 100\<rparr>]"
proof -
  let ?ns = "example_sequence [Note_zero\<lparr>pitch := 60, endTime := 1, velocity := Some 100\<rparr>]"
  have "tempos ?ns = Some [\<lparr>tempo_time = 0, qpm = 120\<rparr>] \<and> [\<lparr>tempo_time = 0, qpm = 120\<rparr>] \<noteq> [] \<and>
        timeSignatures ?ns = Some [\<lparr>ts_time = 0, numerator = 4, denominator = 4\<rparr>] \<and>
        [\<lparr>ts_time = 0, numerator = 4, denominator = 4\<rparr>] \<noteq> []"
    by (simp add: example_sequence_def NoteSequence_create_def)
  with sequenceProtoToMidi_frame [of ?ns "[\<lparr>tempo_time = 0, qpm = 120\<rparr>]"
      "[\<lparr>ts_time = 0, numerator = 4, denominator = 4\<rparr>]" example_constants]
  show ?thesis by blast
qed

subsection \<open>midiToSequenceProto\<close>

lemma add_note_notes:
  "notes (add_note b i t n ns) = notes ns @ [Note_create b i t n]"
  by (simp add: add_note_def Let_def)

lemma add_note_totalTime:
  "totalTime (add_note b i t n ns) = max (totalTime ns) (note_time n + duration n)"
  by (simp add: add_note_def Let_def max_def)

lemma fold_add_note_notes:
  "notes (fold (add_note b i t) xs ns) = notes ns @ map (Note_create b i t) xs"
  by (induction xs arbitrary: ns) (simp_all add: add_note_notes)

lemma Max_insert_max:
  fixes a b :: real
  assumes "finite S"
  shows "Max (insert (max a b) S) = max a (Max (insert b S))"
proof (cases "S = {}")
  case True
  then show ?thesis by simp
next
  case False
  with assms show ?thesis by (simp add: max.assoc)
qed

lemma fold_add_note_totalTime:
  "totalTime (fold (add_note b i t) xs ns)
     = Max (insert (totalTime ns) ((\<lambda>n. note_time n + duration n) ` set xs))"
proof (induction xs arbitrary: ns)
  case Nil
  then show ?case by simp
next
  case (Cons x xs)
  let ?e = "\<lambda>n. note_time n + duration n"
  have "Max (insert (max (totalTime ns) (?e x)) (?e ` set xs))
      = Max (insert (totalTime ns) (insert (?e x) (?e ` set xs)))"
    by (simp add: Max_insert_max)
  with Cons.IH [of "add_note b i t x ns"] show ?case
    by (simp add: add_note_totalTime)
qed


lemma add_track_fst:
  "fst (add_track b t (i, ns)) = (if track_notes t \<noteq> [] then i + 1 else i)"
  by (simp add: add_track_def Let_def)

lemma add_track_totalTime:
  "totalTime (snd (add_track b t (i, ns)))
     = Max (insert (totalTime ns) ((\<lambda>n. note_time n + duration n) ` set (track_notes t)))"
  by (simp add: add_track_def Let_def fold_add_note_totalTime)

lemma add_track_notes:
  "notes (snd (add_track b t (i, ns)))
     = notes ns @ map (Note_create b (if track_notes t \<noteq> [] then i + 1 else i) t) (track_notes t)"
  by (simp add: add_track_def Let_def fold_add_note_notes)

lemma fold_add_track_totalTime:
  "totalTime (snd (fold (add_track b) ts (i, ns)))
     = Max (insert (totalTime ns)
         ((\<lambda>n. note_time n + duration n) ` (\<Union>t\<in>set ts. set (track_notes t))))"
proof (induction ts arbitrary: i ns)
  case Nil
  then show ?case by simp
next
  case (Cons t ts)
  let ?e = "\<lambda>n. note_time n + duration n"
  obtain i' ns' where step: "add_track b t (i, ns) = (i', ns')" by (cases "add_track b t (i, ns)")
  then have tt: "totalTime ns' = Max (insert (totalTime ns) (?e ` set (track_notes t)))"
    using add_track_totalTime [of b t i ns] by simp
  let ?A = "?e ` set (track_notes t)" and ?B = "?e ` (\<Union>t\<in>set ts. set (track_notes t))"
  have "Max (insert (Max (insert (totalTime ns) ?A)) ?B) = Max (insert (totalTime ns) ?A \<union> ?B)"
  proof (cases "?B = {}")
    case True
    then show ?thesis by simp
  next
    case False
    have "Max (insert (totalTime ns) ?A \<union> ?B) = max (Max (insert (totalTime ns) ?A)) (Max ?B)"
      using False by (intro Max_Un) simp_all
    moreover have "Max (insert (Max (insert (totalTime ns) ?A)) ?B)
        = max (Max (insert (totalTime ns) ?A)) (Max ?B)"
      using False by (intro Max_insert) simp_all
    ultimately show ?thesis by simp
  qed
  moreover have "insert (totalTime ns) ?A \<union> ?B
      = insert (totalTime ns) (?e ` (\<Union>t\<in>set (t # ts). set (track_notes t)))"
    by auto
  ultimately show ?case
    using Cons.IH [of i' ns'] step tt by simp
qed

lemma midiToSequenceProto_fold:
  "\<exists>ns. totalTime ns = 0 \<and> notes ns = [] \<and>
     midiToSequenceProto b pm = snd (fold (add_track b) (tracks pm) (- 1, ns))"
proof -
  define ns where "ns = NoteSequence_create
    \<lparr>ticksPerQuarter := Some (PPQ (header pm)),
     sourceInfo := Some \<lparr>parser = TONEJS_MIDI_CONVERT, encodingType = MIDI\<rparr>,
     timeSignatures := push (Some [])
       (case timeSignature (header pm) of
          Some (n, d) \<Rightarrow> \<lparr>ts_time = 0, numerator = n, denominator = d\<rparr>
        | None \<Rightarrow> \<lparr>ts_time = 0, numerator = 4, denominator = 4\<rparr>),
     tempos := push (Some []) \<lparr>tempo_time = 0, qpm = bpm (header pm)\<rparr>\<rparr>"
  have "midiToSequenceProto b pm = snd (fold (add_track b) (tracks pm) (- 1, ns))"
    by (simp add: midiToSequenceProto_def ns_def NoteSequence_create_def Let_def
        split: option.splits prod.splits)
  moreover have "totalTime ns = 0" "notes ns = []"
    by (simp_all add: ns_def NoteSequence_create_def)
  ultimately show ?thesis by blast
qed

lemma instrument_Note_create [simp]: "instrument (Note_create b i t n) = Some i"
  by (simp add: Note_create_def Let_def)

lemma pitch_Note_create [simp]: "pitch (Note_create b i t n) = midi n"
  by (simp add: Note_create_def Let_def)

lemma fold_add_track_notes:
  "notes (snd (fold (add_track b) ts (int m - 1, ns)))
     = notes ns @
       concat (map (\<lambda>(k, t). map (Note_create b (int k) t) (track_notes t))
                 (enumerate m (filter (\<lambda>t. track_notes t \<noteq> []) ts)))"
proof (induction ts arbitrary: m ns)
  case Nil
  then show ?case by simp
next
  case (Cons t ts)
  show ?case
  proof (cases "track_notes t = []")
    case True
    then have "add_track b t (int m - 1, ns) = (int m - 1, ns)"
      by (simp add: add_track_def)
    with True Cons.IH [of m ns] show ?thesis by simp
  next
    case False
    define ns' where "ns' = fold (add_note b (int m) t) (track_notes t) ns"
    from False have "add_track b t (int m - 1, ns) = (int (Suc m) - 1, ns')"
      by (simp add: add_track_def ns'_def Let_def)
    moreover have "notes ns' = notes ns @ map (Note_create b (int m) t) (track_notes t)"
      by (simp add: ns'_def fold_add_note_notes)
    ultimately show ?thesis
      using False Cons.IH [of "Suc m" ns'] by simp
  qed
qed

lemma midiToSequenceProto_notes:
  "notes (midiToSequenceProto b pm)
     = concat (map (\<lambda>(k, t). map (Note_create b (int k) t) (track_notes t))
                 (enumerate 0 (filter (\<lambda>t. track_notes t \<noteq> []) (tracks pm))))"
proof -
  from midiToSequenceProto_fold [of b pm] obtain ns where
    "notes ns = []" "midiToSequenceProto b pm = snd (fold (add_track b) (tracks pm) (int 0 - 1, ns))"
    by auto
  then show ?thesis by (simp only: fold_add_track_notes append_Nil)
qed

lemma instruments_of_enumerated:
  assumes "\<forall>t\<in>set fs. track_notes t \<noteq> []"
  shows "set (concat (map (\<lambda>(k, t). replicate (length (track_notes t)) (Some (int k)))
                        (enumerate m fs)))
         = (\<lambda>k. Some (int k)) ` {m..<m + length fs}"
  using assms
proof (induction fs arbitrary: m)
  case Nil
  then show ?case by simp
next
  case (Cons t fs)
  then have "set (concat (map (\<lambda>(k, t). replicate (length (track_notes t)) (Some (int k)))
                        (enumerate (Suc m) fs)))
         = (\<lambda>k. Some (int k)) ` {Suc m..<Suc m + length fs}"
    by simp
  moreover have "{m..<m + length (t # fs)} = insert m {Suc m..<Suc m + length fs}"
    by auto
  moreover from Cons.prems have "set (replicate (length (track_notes t)) (Some (int m))) = {Some (int m)}"
    by simp
  ultimately show ?case by simp
qed

text \<open>
  Claim C7. For a parsed MIDI structure whose notes have non-negative times and
  durations, \<open>totalTime\<close> of the result is the maximum of \<open>time + duration\<close> over all
  notes of all tracks, and 0 when there is no note.
\<close>

theorem midiToSequenceProto_totalTime:
  assumes "\<forall>t\<in>set (tracks pm). \<forall>n\<in>set (track_notes t). 0 \<le> note_time n \<and> 0 \<le> duration n"
  shows "totalTime (midiToSequenceProto Note_new pm) =
           (if (\<Union>t\<in>set (tracks pm). set (track_notes t)) = {} then 0
            else Max ((\<lambda>n. note_time n + duration n) ` (\<Union>t\<in>set (tracks pm). set (track_notes t))))"
proof -
  let ?e = "\<lambda>n. note_time n + duration n"
  let ?all = "\<Union>t\<in>set (tracks pm). set (track_notes t)"
  from midiToSequenceProto_fold [of Note_new pm]
  have total: "totalTime (midiToSequenceProto Note_new pm) = Max (insert 0 (?e ` ?all))"
    by (auto simp: fold_add_track_totalTime)
  show ?thesis
  proof (cases "?all = {}")
    case True
    with total show ?thesis by simp
  next
    case False
    then obtain n where n: "n \<in> ?all" by blast
    with assms have "0 \<le> ?e n" by auto
    moreover have fin: "finite (?e ` ?all)" by simp
    ultimately have "0 \<le> Max (?e ` ?all)"
      using n by (meson Max_ge image_eqI order_trans)
    moreover from False fin have "Max (insert 0 (?e ` ?all)) = max 0 (Max (?e ` ?all))"
      by (intro Max_insert) simp_all
    ultimately have "Max (insert 0 (?e ` ?all)) = Max (?e ` ?all)" by simp
    moreover from False
    have "(if ?all = {} then 0 else Max (?e ` ?all)) = Max (?e ` ?all)" by (rule if_not_P)
    ultimately show ?thesis using total by (simp only:)
  qed
qed

theorem midiToSequenceProto_totalTime_witness:
  "totalTime (midiToSequenceProto Note_zero example_midi) = 3"
proof -
  have "\<forall>t\<in>set (tracks example_midi). \<forall>n\<in>set (track_notes t). 0 \<le> note_time n \<and> 0 \<le> duration n"
    by (simp add: example_midi_def)
  from midiToSequenceProto_totalTime [OF this, of Note_zero]
  show ?thesis by (simp add: example_midi_def)
qed

text \<open>
  Claim C8. The notes of the result are the notes of the non-empty tracks in track
  order, and every note of the \<open>i\<close>-th non-empty track (counting from 0) carries the
  instrument number \<open>i\<close>; the instrument numbers that occur are exactly
  \<open>0, \<dots>, m - 1\<close> for \<open>m\<close> non-empty tracks.
\<close>

theorem midiToSequenceProto_instruments:
  "notes (midiToSequenceProto Note_new pm) =
     concat (map (\<lambda>(i, track). map (Note_create Note_new (int i) track) (track_notes track))
               (enumerate 0 (filter (\<lambda>track. track_notes track \<noteq> []) (tracks pm)))) \<and>
   map instrument (notes (midiToSequenceProto Note_new pm)) =
     concat (map (\<lambda>(i, track). replicate (length (track_notes track)) (Some (int i)))
               (enumerate 0 (filter (\<lambda>track. track_notes track \<noteq> []) (tracks pm)))) \<and>
   instrument ` set (notes (midiToSequenceProto Note_new pm)) =
     (\<lambda>i. Some (int i)) ` {0..<length (filter (\<lambda>track. track_notes track \<noteq> []) (tracks pm))}"
proof -
  let ?fs = "filter (\<lambda>track. track_notes track \<noteq> []) (tracks pm)"
  have n: "notes (midiToSequenceProto Note_new pm) =
     concat (map (\<lambda>(i, track). map (Note_create Note_new (int i) track) (track_notes track))
               (enumerate 0 ?fs))"
    by (rule midiToSequenceProto_notes)
  have m: "map instrument (notes (midiToSequenceProto Note_new pm)) =
     concat (map (\<lambda>(i, track). replicate (length (track_notes track)) (Some (int i)))
               (enumerate 0 ?fs))"
    unfolding n
    by (simp add: map_concat comp_def case_prod_unfold map_replicate_const)
  have "\<forall>t\<in>set ?fs. track_notes t \<noteq> []" by simp
  then have "set (map instrument (notes (midiToSequenceProto Note_new pm)))
      = (\<lambda>i. Some (int i)) ` {0..<0 + length ?fs}"
    unfolding m by (rule instruments_of_enumerated)
  then have "instrument ` set (notes (midiToSequenceProto Note_new pm))
      = (\<lambda>i. Some (int i)) ` {0..<length ?fs}"
    by simp
  with n m show ?thesis by blast
qed

subsection \<open>sequenceProtoToMidi: grouping, sorting and the tracks\<close>

lemma track_note_map_of:
  "map_of (track_note n G) i =
     (if i = track_key n then Some ((case map_of G i of None \<Rightarrow> [] | Some l \<Rightarrow> l) @ [n])
      else map_of G i)"
  by (auto simp: track_note_def track_key_def Let_def update_conv' split: option.splits)

lemma track_note_keys:
  "set (map fst (track_note n G)) = insert (track_key n) (set (map fst G))"
proof -
  have "dom (map_of (track_note n G)) = insert (track_key n) (dom (map_of G))"
    by (auto simp: track_note_map_of split: if_splits)
  then show ?thesis by (simp add: dom_map_of_conv_image_fst)
qed

lemma track_note_distinct:
  "distinct (map fst G) \<Longrightarrow> distinct (map fst (track_note n G))"
  by (simp add: track_note_def Let_def distinct_update split: option.splits)

lemma fold_track_note_map_of:
  "map_of (fold track_note xs G) i =
     (if instrument_notes i xs = [] then map_of G i
      else Some ((case map_of G i of None \<Rightarrow> [] | Some l \<Rightarrow> l) @ instrument_notes i xs))"
  by (induction xs arbitrary: G) (simp_all add: instrument_notes_def track_note_map_of)

lemma fold_track_note_keys:
  "set (map fst (fold track_note xs G)) = track_key ` set xs \<union> set (map fst G)"
  by (induction xs arbitrary: G) (simp_all add: track_note_keys del: set_map)

lemma fold_track_note_distinct:
  "distinct (map fst G) \<Longrightarrow> distinct (map fst (fold track_note xs G))"
  by (induction xs arbitrary: G) (simp_all add: track_note_distinct)

lemma build_tracks_Inr:
  assumes "build_tracks c G i instrs acc = Inr ts"
  shows "instrs = map int [i..<i + length instrs] \<and>
         ts = acc @ map (\<lambda>j. exported_track c (int j) (the (map_of G (int j)))) [i..<i + length instrs] \<and>
         (\<forall>j. i \<le> j \<and> j < i + length instrs \<longrightarrow> (\<exists>l. map_of G (int j) = Some l \<and> l \<noteq> []))"
  using assms
proof (induction instrs arbitrary: i acc)
  case Nil
  then show ?case by auto
next
  case (Cons x instrs)
  from Cons.prems have x: "x = int i"
    by (simp split: if_splits)
  with Cons.prems obtain first others where
    grp: "map_of G (int i) = Some (first # others)"
    by (auto split: option.splits list.splits)
  with Cons.prems x have rest:
    "build_tracks c G (Suc i) instrs (acc @ [exported_track c (int i) (first # others)]) = Inr ts"
    by (simp add: exported_track_def Let_def)
  from Cons.IH [OF rest] have
    a: "instrs = map int [Suc i..<Suc i + length instrs]" and
    b: "ts = (acc @ [exported_track c (int i) (first # others)]) @
          map (\<lambda>j. exported_track c (int j) (the (map_of G (int j)))) [Suc i..<Suc i + length instrs]" and
    d: "\<forall>j. Suc i \<le> j \<and> j < Suc i + length instrs \<longrightarrow> (\<exists>l. map_of G (int j) = Some l \<and> l \<noteq> [])"
    by blast+
  have upt: "[i..<i + length (x # instrs)] = i # [Suc i..<Suc i + length instrs]"
    using upt_conv_Cons [of i "i + length (x # instrs)"] by simp
  have "x # instrs = map int [i..<i + length (x # instrs)]"
    unfolding upt using a x by simp
  moreover have "ts = acc @ map (\<lambda>j. exported_track c (int j) (the (map_of G (int j))))
      [i..<i + length (x # instrs)]"
    unfolding upt using b grp by simp
  moreover have "\<forall>j. i \<le> j \<and> j < i + length (x # instrs) \<longrightarrow> (\<exists>l. map_of G (int j) = Some l \<and> l \<noteq> [])"
  proof (intro allI impI)
    fix j assume j: "i \<le> j \<and> j < i + length (x # instrs)"
    show "\<exists>l. map_of G (int j) = Some l \<and> l \<noteq> []"
    proof (cases "j = i")
      case True
      with grp show ?thesis by simp
    next
      case False
      with j have "Suc i \<le> j \<and> j < Suc i + length instrs" by simp
      with d show ?thesis by blast
    qed
  qed
  ultimately show ?case by blast
qed


lemma enumerate_map_upt:
  "enumerate m (map g [i..<i + k]) = map (\<lambda>j. (j - i + m, g j)) [i..<i + k]"
proof (induction k arbitrary: i m)
  case 0
  then show ?case by simp
next
  case (Suc k)
  have upt: "[i..<i + Suc k] = i # [Suc i..<Suc i + k]" by (simp add: upt_conv_Cons)
  have "map (\<lambda>j. (j - Suc i + Suc m, g j)) [Suc i..<Suc i + k]
      = map (\<lambda>j. (j - i + m, g j)) [Suc i..<Suc i + k]"
    by (rule map_cong) auto
  with Suc [of "Suc m" "Suc i"] show ?case unfolding upt by simp
qed

lemma reimport_one:
  assumes "n \<in> set (instrument_notes i xs)"
  shows "Note_create b i (exported_track c i (instrument_notes i xs)) (to_midi_note c n)
         = reimported c b xs n"
proof -
  from assms have "track_key n = i" by (simp add: instrument_notes_def)
  moreover have "\<lfloor>real_of_int (v + 1) / 128 * 128\<rfloor> = v + 1" for v :: int
  proof -
    have "real_of_int (v + 1) / 128 * 128 = of_int (v + 1)" by simp
    then show ?thesis by (simp only: floor_of_int)
  qed
  ultimately show ?thesis
    by (simp add: Note_create_def reimported_def exported_track_def to_midi_note_def
        MIDI_VELOCITIES_def Let_def)
qed

lemma export_json_Inr:
  assumes "export_json c ns tempos0 timeSignatures0 = Inr json"
  shows "\<exists>k. track_key ` set (notes ns) = int ` {0..<k} \<and>
           tracks json
             = map (\<lambda>j. exported_track c (int j) (instrument_notes (int j) (notes ns))) [0..<k] \<and>
           (\<forall>j<k. instrument_notes (int j) (notes ns) \<noteq> [])"
proof -
  let ?G = "fold track_note (notes ns) []"
  let ?instrs = "sort_key js_number_toString (map fst ?G)"
  from assms obtain ts where
    bt: "build_tracks c ?G 0 ?instrs [] = Inr ts" and json: "tracks json = ts"
    by (auto simp: export_json_def Let_def split: if_splits sum.splits)
  let ?k = "length ?instrs"
  from build_tracks_Inr [OF bt] have
    instrs: "?instrs = map int [0..<?k]" and
    ts: "ts = map (\<lambda>j. exported_track c (int j) (the (map_of ?G (int j)))) [0..<?k]" and
    grp: "\<forall>j<?k. \<exists>l. map_of ?G (int j) = Some l \<and> l \<noteq> []"
    by simp_all
  have G: "map_of ?G i = (if instrument_notes i (notes ns) = [] then None
      else Some (instrument_notes i (notes ns)))" for i
    by (simp add: fold_track_note_map_of)
  have nonempty: "instrument_notes (int j) (notes ns) \<noteq> []" if "j < ?k" for j
    using grp that G [of "int j"] by (auto split: if_splits)
  then have the_grp: "the (map_of ?G (int j)) = instrument_notes (int j) (notes ns)" if "j < ?k" for j
    using that G [of "int j"] by simp
  have "set ?instrs = track_key ` set (notes ns)"
    using fold_track_note_keys [of "notes ns" "[]"] by simp
  with instrs have keys: "track_key ` set (notes ns) = int ` {0..<?k}"
    by (metis atLeastLessThan_upt set_map)
  from ts the_grp have "ts = map (\<lambda>j. exported_track c (int j) (instrument_notes (int j) (notes ns))) [0..<?k]"
    by simp
  with json keys nonempty show ?thesis by blast
qed


lemma mset_filter_disjoint:
  assumes "\<And>x. \<not> (P x \<and> Q x)"
  shows "mset (filter P xs) + mset (filter Q xs) = mset (filter (\<lambda>x. P x \<or> Q x) xs)"
  using assms by (induction xs) auto

lemma mset_by_instrument_filter:
  "mset (by_instrument k xs) = mset (filter (\<lambda>n. track_key n \<in> int ` {0..<k}) xs)"
proof (induction k)
  case 0
  then show ?case by (simp add: by_instrument_def)
next
  case (Suc k)
  have "by_instrument (Suc k) xs = by_instrument k xs @ instrument_notes (int k) xs"
    by (simp add: by_instrument_def)
  then have "mset (by_instrument (Suc k) xs)
      = mset (filter (\<lambda>n. track_key n \<in> int ` {0..<k}) xs)
        + mset (filter (\<lambda>n. track_key n = int k) xs)"
    by (simp add: Suc instrument_notes_def)
  also have "\<dots> = mset (filter (\<lambda>n. track_key n \<in> int ` {0..<k} \<or> track_key n = int k) xs)"
    by (rule mset_filter_disjoint) auto
  also have "(\<lambda>n. track_key n \<in> int ` {0..<k} \<or> track_key n = int k)
      = (\<lambda>n. track_key n \<in> int ` {0..<Suc k})"
    by (auto simp: less_Suc_eq)
  finally show ?case .
qed

lemma mset_by_instrument:
  assumes "track_key ` set xs = int ` {0..<k}"
  shows "mset (by_instrument k xs) = mset xs"
proof -
  from assms have "\<forall>n\<in>set xs. track_key n \<in> int ` {0..<k}" by blast
  then have "filter (\<lambda>n. track_key n \<in> int ` {0..<k}) xs = xs" by (simp only: filter_True)
  then show ?thesis by (simp only: mset_by_instrument_filter)
qed

text \<open>
  When the export returns, the instruments filed are exactly \<open>0, \<dots>, k - 1\<close> and the
  tracks are, in this order, those of the instruments \<open>0, \<dots>, k - 1\<close>, none empty.
\<close>

lemma sequenceProtoToMidi_Inr:
  assumes "snd (sequenceProtoToMidi c ns) = Inr json"
  shows "\<exists>k. track_key ` set (notes ns) = int ` {0..<k} \<and>
           tracks json
             = map (\<lambda>j. exported_track c (int j) (instrument_notes (int j) (notes ns))) [0..<k] \<and>
           (\<forall>j<k. instrument_notes (int j) (notes ns) \<noteq> [])"
proof -
  from assms obtain ns2 ts tss where
    "export_json c ns2 ts tss = Inr json" "notes ns2 = notes ns"
    by (auto simp: sequenceProtoToMidi_def Let_def split: option.splits if_splits)
  with export_json_Inr [of c ns2 ts tss json] show ?thesis by simp
qed

text \<open>
  When the export returns, the import of its result holds the notes of the input,
  regrouped by instrument, each with its pitch and its instrument, its velocity raised
  by one (the value of \<open>floor(((v + 1) / 128) \<times> 128)\<close>), and the program and drum flag
  of the first note of its instrument.
\<close>

lemma export_then_import_notes:
  assumes "export_then_import c b ns = Inr ns'"
  shows "\<exists>k. track_key ` set (notes ns) = int ` {0..<k} \<and>
           mset (by_instrument k (notes ns)) = mset (notes ns) \<and>
           notes ns' = map (reimported c b (notes ns)) (by_instrument k (notes ns))"
proof -
  from assms obtain json where
    json: "snd (sequenceProtoToMidi c ns) = Inr json" and ns': "ns' = midiToSequenceProto b json"
    by (auto simp: export_then_import_def split: sum.splits)
  let ?I = "\<lambda>j. instrument_notes (int j) (notes ns)"
  let ?g = "\<lambda>j. exported_track c (int j) (?I j)"
  from sequenceProtoToMidi_Inr [OF json] obtain k where
    keys: "track_key ` set (notes ns) = int ` {0..<k}" and
    ts: "tracks json = map ?g [0..<k]" and
    nonempty: "\<forall>j<k. ?I j \<noteq> []"
    by blast
  from nonempty have "filter (\<lambda>t. track_notes t \<noteq> []) (map ?g [0..<k]) = map ?g [0..<k]"
    by (simp add: filter_id_conv exported_track_def)
  moreover have "enumerate 0 (map ?g [0..<0 + k]) = map (\<lambda>j. (j - 0 + 0, ?g j)) [0..<0 + k]"
    by (rule enumerate_map_upt)
  ultimately have "notes ns' = concat (map (\<lambda>j. map (Note_create b (int j) (?g j)) (track_notes (?g j))) [0..<k])"
    by (simp add: ns' midiToSequenceProto_notes ts comp_def)
  also have "\<dots> = concat (map (\<lambda>j. map (reimported c b (notes ns)) (?I j)) [0..<k])"
    by (simp add: exported_track_def reimport_one [unfolded exported_track_def] comp_def
        cong: map_cong)
  also have "\<dots> = map (reimported c b (notes ns)) (by_instrument k (notes ns))"
    by (simp add: by_instrument_def map_concat comp_def)
  finally have "notes ns' = map (reimported c b (notes ns)) (by_instrument k (notes ns))" .
  with keys mset_by_instrument [OF keys] show ?thesis by blast
qed

lemma reimported_fields:
  "pitch (reimported c b xs n) = pitch n"
  "instrument (reimported c b xs n) = Some (track_key n)"
  "velocity (reimported c b xs n)
     = Some ((case velocity n of None \<Rightarrow> DEFAULT_VELOCITY c | Some v \<Rightarrow> v) + 1)"
  "program (reimported c b xs n)
     = Some (case program (hd (instrument_notes (track_key n) xs)) of
               None \<Rightarrow> DEFAULT_PROGRAM c | Some p \<Rightarrow> p)"
  by (simp_all add: reimported_def Let_def)


text \<open>
  The velocity of a note after the export and the import is the value of the composed
  rescaling \<open>floor(((v + 1) / 128) \<times> 128)\<close>, which is \<open>v + 1\<close>: one step of the
  128-step scale away from \<open>v\<close>.
\<close>

lemma reimported_velocity:
  assumes "velocity n = Some v"
  shows "velocity (reimported c b xs n)
           = Some \<lfloor>real_of_int (v + 1) / MIDI_VELOCITIES * MIDI_VELOCITIES\<rfloor>"
    and "velocity (reimported c b xs n) = Some (v + 1)"
    and "\<bar>real_of_int (v + 1) - real_of_int v\<bar> / 128 \<le> 1 / 128"
proof -
  have "real_of_int (v + 1) / 128 * 128 = of_int (v + 1)" by simp
  then have "\<lfloor>real_of_int (v + 1) / MIDI_VELOCITIES * MIDI_VELOCITIES\<rfloor> = v + 1"
    by (simp only: MIDI_VELOCITIES_def floor_of_int)
  moreover from assms show "velocity (reimported c b xs n) = Some (v + 1)"
    by (simp add: reimported_fields)
  ultimately show "velocity (reimported c b xs n)
           = Some \<lfloor>real_of_int (v + 1) / MIDI_VELOCITIES * MIDI_VELOCITIES\<rfloor>"
    by simp
  show "\<bar>real_of_int (v + 1) - real_of_int v\<bar> / 128 \<le> 1 / 128" by simp
qed

text \<open>
  On the numbers 0 to 9 the string order is the numeric order, so a sequence with one
  tempo and one time signature at time 0 and the instruments \<open>0, \<dots>, k - 1\<close> is exported
  when \<open>k \<le> 10\<close>.
\<close>

lemma single_digit_order:
  "\<forall>a\<in>set [0..<10]. \<forall>b\<in>set [0..<10].
     (js_number_toString (int a) \<le> js_number_toString (int b)) = (a \<le> b)"
  by code_simp

lemma js_number_toString_le_iff:
  assumes "0 \<le> a" "a < 10" "0 \<le> b" "b < 10"
  shows "js_number_toString a \<le> js_number_toString b \<longleftrightarrow> a \<le> b"
proof -
  from assms have "nat a \<in> set [0..<10]" "nat b \<in> set [0..<10]" by simp_all
  with single_digit_order
  have "(js_number_toString (int (nat a)) \<le> js_number_toString (int (nat b))) = (nat a \<le> nat b)"
    by blast
  moreover from assms have "int (nat a) = a" "int (nat b) = b" "nat a \<le> nat b \<longleftrightarrow> a \<le> b"
    by linarith+
  ultimately show ?thesis by (simp only:)
qed

lemma insort_key_order_embedding:
  assumes "\<forall>y\<in>set ys. f x \<le> f y \<longleftrightarrow> x \<le> y"
  shows "insort_key f x ys = insort x ys"
  using assms by (induction ys) simp_all

lemma sort_key_order_embedding:
  assumes "\<forall>x\<in>set xs. \<forall>y\<in>set xs. f x \<le> f y \<longleftrightarrow> x \<le> y"
  shows "sort_key f xs = sort xs"
  using assms
proof (induction xs)
  case Nil
  then show ?case by simp
next
  case (Cons x xs)
  then have "sort_key f xs = sort xs" by simp
  moreover from Cons.prems have "insort_key f x (sort xs) = insort x (sort xs)"
    by (intro insort_key_order_embedding) simp
  ultimately show ?case by simp
qed

lemma sort_contiguous:
  assumes "distinct keys" "set keys = int ` {0..<k}"
  shows "sort keys = map int [0..<k]"
proof (rule sorted_distinct_set_unique)
  show "sorted (sort keys)" by simp
  from assms(1) show "distinct (sort keys)" by simp
  show "sorted (map int [0..<k])" by (simp add: sorted_map sorted_wrt_iff_nth_less)
  show "distinct (map int [0..<k])" by (simp add: distinct_map inj_on_def)
  from assms(2) show "set (sort keys) = set (map int [0..<k])" by simp
qed

lemma build_tracks_succeeds:
  assumes "\<forall>j. i \<le> j \<and> j < i + n \<longrightarrow> (\<exists>l. map_of G (int j) = Some l \<and> l \<noteq> [])"
  shows "\<exists>ts. build_tracks c G i (map int [i..<i + n]) acc = Inr ts"
  using assms
proof (induction n arbitrary: i acc)
  case 0
  then show ?case by simp
next
  case (Suc n)
  have upt: "[i..<i + Suc n] = i # [Suc i..<Suc i + n]"
    using upt_conv_Cons [of i "i + Suc n"] by simp
  from Suc.prems have "\<exists>l. map_of G (int i) = Some l \<and> l \<noteq> []" by simp
  then obtain first others where grp: "map_of G (int i) = Some (first # others)"
    by (auto simp: neq_Nil_conv)
  from Suc.prems have "\<forall>j. Suc i \<le> j \<and> j < Suc i + n \<longrightarrow> (\<exists>l. map_of G (int j) = Some l \<and> l \<noteq> [])"
    by simp
  from Suc.IH [OF this] grp show ?case unfolding upt by (simp add: Let_def)
qed

lemma sequenceProtoToMidi_upto_ten:
  assumes "tempos ns = Some [t]" "tempo_time t = 0"
    and "timeSignatures ns = Some [s]" "ts_time s = 0"
    and "track_key ` set (notes ns) = int ` {0..<k}" "k \<le> 10"
  shows "\<exists>json. snd (sequenceProtoToMidi c ns) = Inr json"
proof -
  let ?G = "fold track_note (notes ns) []"
  have keys: "set (map fst ?G) = int ` {0..<k}"
    using fold_track_note_keys [of "notes ns" "[]"] assms(5) by simp
  have dist: "distinct (map fst ?G)"
    by (rule fold_track_note_distinct) simp
  have "js_number_toString x \<le> js_number_toString y \<longleftrightarrow> x \<le> y"
    if "x \<in> int ` {0..<k}" "y \<in> int ` {0..<k}" for x y
  proof (rule js_number_toString_le_iff)
    from that assms(6) show "0 \<le> x" "x < 10" "0 \<le> y" "y < 10" by auto
  qed
  then have "\<forall>x\<in>set (map fst ?G). \<forall>y\<in>set (map fst ?G).
      js_number_toString x \<le> js_number_toString y \<longleftrightarrow> x \<le> y"
    unfolding keys by blast
  then have "sort_key js_number_toString (map fst ?G) = sort (map fst ?G)"
    by (rule sort_key_order_embedding)
  with sort_contiguous [OF dist keys]
  have sorted: "sort_key js_number_toString (map fst ?G) = map int [0..<0 + k]" by simp
  have "\<exists>l. map_of ?G (int j) = Some l \<and> l \<noteq> []" if "j < k" for j
  proof -
    from that assms(5) have "int j \<in> track_key ` set (notes ns)" by simp
    then have "instrument_notes (int j) (notes ns) \<noteq> []"
      by (auto simp: instrument_notes_def filter_empty_conv)
    then show ?thesis by (simp add: fold_track_note_map_of)
  qed
  then have "\<forall>j. 0 \<le> j \<and> j < 0 + k \<longrightarrow> (\<exists>l. map_of ?G (int j) = Some l \<and> l \<noteq> [])" by simp
  from build_tracks_succeeds [OF this, of c "[]"] obtain ts where
    "build_tracks c ?G 0 (map int [0..<0 + k]) [] = Inr ts" by blast
  with sorted assms(1-4) show ?thesis
    by (simp add: sequenceProtoToMidi_def absent_or_empty_def export_json_def Let_def)
qed

subsection \<open>sequenceProtoToMidi: the instrument check\<close>

text \<open>
  Claim C1 asks every sequence whose instruments are exactly \<open>0, \<dots>, k - 1\<close> to pass
  the instrument check and be exported. The keys are sorted by \<^verbatim>\<open>sort()\<close> without a
  comparison function, hence as strings: with the instruments 0 to 10 the string
  \<^verbatim>\<open>"10"\<close> comes before \<^verbatim>\<open>"2"\<close>, position 2 of the sorted list holds 10, and the
  export of a sequence with one tempo and one time signature at time 0 throws
  \<^verbatim>\<open>Instrument list must be continuous and start at 0\<close>.
\<close>

theorem sequenceProtoToMidi_eleven_instruments:
  "map instrument (notes eleven_instruments)
     = [Some 0, Some 1, Some 2, Some 3, Some 4, Some 5, Some 6, Some 7, Some 8, Some 9, Some 10] \<and>
   tempos eleven_instruments = Some [\<lparr>tempo_time = 0, qpm = 120\<rparr>] \<and>
   timeSignatures eleven_instruments = Some [\<lparr>ts_time = 0, numerator = 4, denominator = 4\<rparr>] \<and>
   sort_key js_number_toString [0, 1, 2, 3, 4, 5, 6, 7, 8, 9, 10]
     = [0, 1, 10, 2, 3, 4, 5, 6, 7, 8, 9] \<and>
   snd (sequenceProtoToMidi c eleven_instruments)
     = Inl (MidiConversionError ''Instrument list must be continuous and start at 0'')"
  by code_simp

subsection \<open>Export followed by import\<close>

text \<open>
  Claim C3 asks the export followed by the import to preserve pitches, instrument
  count, programs and velocities for every sequence with one tempo and one time
  signature at time 0 and instruments numbered contiguously from 0. On the sequence
  with the eleven instruments 0 to 10 the export throws, so there is no result to
  import.
\<close>

theorem export_then_import_eleven_instruments:
  "map instrument (notes eleven_instruments) = map Some [0, 1, 2, 3, 4, 5, 6, 7, 8, 9, 10] \<and>
   map tempo_time (case tempos eleven_instruments of None \<Rightarrow> [] | Some ts \<Rightarrow> ts) = [0] \<and>
   map ts_time (case timeSignatures eleven_instruments of None \<Rightarrow> [] | Some ts \<Rightarrow> ts) = [0] \<and>
   export_then_import c Note_new eleven_instruments
     = Inl (MidiConversionError ''Instrument list must be continuous and start at 0'')"
  by code_simp

end
